theory Spec2Isabelle
  imports Complex_Main "HOL-Library.Product_Lexorder" "HOL-Library.Multiset"
begin

section \<open>Vessel quality check: a shallow embedding of app.py\<close>

text \<open>
  The program reads two workbooks through pandas and compares each measured test result
  of a vessel report with the range its product's standards table gives. The embedding
  follows app.py function by function. What pandas and the Python library do around it
  (the values a cell can hold, \<open>str\<close>, \<open>float\<close>, \<open>str.strip\<close>, \<open>re.search\<close>,
  \<open>difflib.get_close_matches\<close>) is written out as far as the program depends on it.
  Text is ASCII text: a \<open>char\<close> is one code point below 128, and case mapping and
  white space are those of ASCII.
\<close>

subsection \<open>Python strings\<close>

definition lower_letters :: string where
  "lower_letters = ''abcdefghijklmnopqrstuvwxyz''"

definition upper_letters :: string where
  "upper_letters = ''ABCDEFGHIJKLMNOPQRSTUVWXYZ''"

definition upper_char :: "char \<Rightarrow> char" where
  "upper_char c = (case map_of (zip lower_letters upper_letters) c of Some u \<Rightarrow> u | None \<Rightarrow> c)"

definition lower_char :: "char \<Rightarrow> char" where
  "lower_char c = (case map_of (zip upper_letters lower_letters) c of Some l \<Rightarrow> l | None \<Rightarrow> c)"

definition py_upper :: "string \<Rightarrow> string" where
  "py_upper s = map upper_char s"

definition py_lower :: "string \<Rightarrow> string" where
  "py_lower s = map lower_char s"

text \<open>\<open>sub in s\<close>: \<open>sub\<close> occurs in \<open>s\<close> as a contiguous run of characters.\<close>

fun py_in :: "string \<Rightarrow> string \<Rightarrow> bool" where
  "py_in sub [] = (sub = [])"
| "py_in sub (c # cs) = (take (length sub) (c # cs) = sub \<or> py_in sub cs)"

text \<open>
  The characters \<open>str.strip()\<close> removes: tab, line feed, vertical tab, form feed,
  carriage return, the four separators 28 to 31, and the space.
\<close>

definition is_space :: "char \<Rightarrow> bool" where
  "is_space c = (c \<in> set [CHR 0x09, CHR 0x0A, CHR 0x0B, CHR 0x0C, CHR 0x0D,
                           CHR 0x1C, CHR 0x1D, CHR 0x1E, CHR 0x1F, CHR 0x20])"

definition py_strip :: "string \<Rightarrow> string" where
  "py_strip s = rev (dropWhile is_space (rev (dropWhile is_space s)))"

text \<open>\<open>s.replace(old, new)\<close> where \<open>old\<close> is one character, as in every use app.py makes of it.\<close>

definition py_replace :: "char \<Rightarrow> string \<Rightarrow> string \<Rightarrow> string" where
  "py_replace old new s = concat (map (\<lambda>c. if c = old then new else [c]) s)"

fun py_join :: "string \<Rightarrow> string list \<Rightarrow> string" where
  "py_join sep [] = []"
| "py_join sep [x] = x"
| "py_join sep (x # y # ys) = x @ sep @ py_join sep (y # ys)"

subsection \<open>Python floats\<close>

text \<open>
  A float is a finite number, an infinity or NaN. A finite float is modelled by the real
  number it denotes: rounding to 53 bits is not modelled. Comparisons that involve NaN
  are false, as in Python.
\<close>

datatype pyfloat = Fin real | PInf | NInf | NaN

fun float_lt :: "pyfloat \<Rightarrow> pyfloat \<Rightarrow> bool" where
  "float_lt NaN _ = False"
| "float_lt _ NaN = False"
| "float_lt (Fin x) (Fin y) = (x < y)"
| "float_lt (Fin _) PInf = True"
| "float_lt (Fin _) NInf = False"
| "float_lt PInf _ = False"
| "float_lt NInf NInf = False"
| "float_lt NInf _ = True"

definition float_gt :: "pyfloat \<Rightarrow> pyfloat \<Rightarrow> bool" where
  "float_gt x y = float_lt y x"

subsection \<open>Cell values\<close>

text \<open>
  What pandas hands to the program for one cell of a sheet: text, a float (an empty cell
  is the float NaN), an integer, a boolean, \<open>None\<close> (what \<open>row.get\<close> returns for a
  column that does not exist), the Series \<open>row.get\<close> returns when several columns carry
  the name asked for, and any other object (a date, a time), which carries the text
  \<open>str\<close> gives for it.
\<close>

datatype cell =
    CStr string
  | CFloat pyfloat
  | CInt int
  | CBool bool
  | CNone
  | CSeries "cell list"
  | COther string

text \<open>\<open>pd.notna\<close>: NaN and \<open>None\<close> are missing, everything else is a value.\<close>

fun notna :: "cell \<Rightarrow> bool" where
  "notna (CFloat NaN) = False"
| "notna CNone = False"
| "notna _ = True"

definition digit_chars :: string where
  "digit_chars = ''0123456789''"

fun nat_str :: "nat \<Rightarrow> string" where
  "nat_str n = (if n < 10 then [digit_chars ! n] else nat_str (n div 10) @ [digit_chars ! (n mod 10)])"

definition int_str :: "int \<Rightarrow> string" where
  "int_str i = (if i < 0 then CHR ''-'' # nat_str (nat (- i)) else nat_str (nat i))"

text \<open>
  \<open>str(x)\<close>. The text Python prints for a finite float (its shortest decimal that reads
  back as the same float) and for a Series is not modelled: the parameter \<open>repr\<close> stands
  for it.
\<close>

fun py_str :: "(cell \<Rightarrow> string) \<Rightarrow> cell \<Rightarrow> string" where
  "py_str repr (CStr s) = s"
| "py_str repr (CFloat NaN) = ''nan''"
| "py_str repr (CFloat PInf) = ''inf''"
| "py_str repr (CFloat NInf) = ''-inf''"
| "py_str repr (CFloat (Fin r)) = repr (CFloat (Fin r))"
| "py_str repr (CInt i) = int_str i"
| "py_str repr (CBool b) = (if b then ''True'' else ''False'')"
| "py_str repr CNone = ''None''"
| "py_str repr (CSeries vs) = repr (CSeries vs)"
| "py_str repr (COther s) = s"

subsection \<open>float(x)\<close>

text \<open>
  \<open>float\<close> of a string, after the grammar of the language reference: white space around
  the text is dropped, then an optional sign, then \<open>inf\<close>, \<open>infinity\<close> or \<open>nan\<close> in any
  case, or a decimal number: digits (single underscores between digits allowed) with an
  optional point and an optional exponent. Anything else raises \<open>ValueError\<close>, which is
  \<open>None\<close> here. A number too large for a double reads as an infinity.
\<close>

definition digit_val :: "char \<Rightarrow> nat option" where
  "digit_val c = map_of (zip digit_chars [0, 1, 2, 3, 4, 5, 6, 7, 8, 9]) c"

fun digits_more :: "nat list \<Rightarrow> string \<Rightarrow> nat list \<times> string" where
  "digits_more acc [] = (acc, [])"
| "digits_more acc [c] =
     (case digit_val c of Some d \<Rightarrow> (acc @ [d], []) | None \<Rightarrow> (acc, [c]))"
| "digits_more acc (c # c' # cs) =
     (case digit_val c of
        Some d \<Rightarrow> digits_more (acc @ [d]) (c' # cs)
      | None \<Rightarrow>
          (if c = CHR ''_'' then
             (case digit_val c' of
                Some d \<Rightarrow> digits_more (acc @ [d]) cs
              | None \<Rightarrow> (acc, c # c' # cs))
           else (acc, c # c' # cs)))"

definition digitpart :: "string \<Rightarrow> (nat list \<times> string) option" where
  "digitpart s =
     (case s of
        [] \<Rightarrow> None
      | c # cs \<Rightarrow> (case digit_val c of None \<Rightarrow> None | Some d \<Rightarrow> Some (digits_more [d] cs)))"

definition nat_of_digits :: "nat list \<Rightarrow> nat" where
  "nat_of_digits ds = foldl (\<lambda>n d. 10 * n + d) 0 ds"

text \<open>The number before the exponent: its value, and the text left after it.\<close>

definition number_part :: "string \<Rightarrow> (real \<times> string) option" where
  "number_part s =
     (case digitpart s of
        Some (ip, r) \<Rightarrow>
          (case r of
             c # r' \<Rightarrow>
               (if c = CHR ''.'' then
                  (case digitpart r' of
                     Some (fp, r'') \<Rightarrow>
                       Some (real (nat_of_digits ip) + real (nat_of_digits fp) / 10 ^ length fp, r'')
                   | None \<Rightarrow> Some (real (nat_of_digits ip), r'))
                else Some (real (nat_of_digits ip), r))
           | [] \<Rightarrow> Some (real (nat_of_digits ip), []))
      | None \<Rightarrow>
          (case s of
             c # r' \<Rightarrow>
               (if c = CHR ''.'' then
                  (case digitpart r' of
                     Some (fp, r'') \<Rightarrow> Some (real (nat_of_digits fp) / 10 ^ length fp, r'')
                   | None \<Rightarrow> None)
                else None)
           | [] \<Rightarrow> None))"

text \<open>The exponent, which must end the text: \<open>e\<close> or \<open>E\<close>, an optional sign, digits.\<close>

definition exponent_part :: "string \<Rightarrow> int option" where
  "exponent_part s =
     (case s of
        [] \<Rightarrow> Some 0
      | c # r \<Rightarrow>
          (if c = CHR ''e'' \<or> c = CHR ''E'' then
             (let (neg, r') =
                    (case r of
                       [] \<Rightarrow> (False, r)
                     | d # ds \<Rightarrow>
                         (if d = CHR ''-'' then (True, ds)
                          else if d = CHR ''+'' then (False, ds) else (False, r)))
              in case digitpart r' of
                   Some (ds, []) \<Rightarrow>
                     Some (if neg then - int (nat_of_digits ds) else int (nat_of_digits ds))
                 | _ \<Rightarrow> None)
           else None))"

definition double_overflow :: real where
  "double_overflow = 2 ^ 1024 - 2 ^ 970"

definition scale10 :: "real \<Rightarrow> int \<Rightarrow> real" where
  "scale10 m e = (if 0 \<le> e then m * 10 ^ nat e else m / 10 ^ nat (- e))"

definition float_abs_of_str :: "string \<Rightarrow> pyfloat option" where
  "float_abs_of_str s =
     (if py_lower s = ''inf'' \<or> py_lower s = ''infinity'' then Some PInf
      else if py_lower s = ''nan'' then Some NaN
      else
        (case number_part s of
           None \<Rightarrow> None
         | Some (m, r) \<Rightarrow>
             (case exponent_part r of
                None \<Rightarrow> None
              | Some e \<Rightarrow>
                  Some (if double_overflow \<le> scale10 m e then PInf else Fin (scale10 m e)))))"

fun float_neg :: "pyfloat \<Rightarrow> pyfloat" where
  "float_neg (Fin r) = Fin (- r)"
| "float_neg PInf = NInf"
| "float_neg NInf = PInf"
| "float_neg NaN = NaN"

definition float_of_str :: "string \<Rightarrow> pyfloat option" where
  "float_of_str s =
     (case py_strip s of
        [] \<Rightarrow> None
      | c # cs \<Rightarrow>
          (if c = CHR ''-'' then map_option float_neg (float_abs_of_str cs)
           else if c = CHR ''+'' then float_abs_of_str cs
           else float_abs_of_str (c # cs)))"

text \<open>
  \<open>float(x)\<close> for any cell value; \<open>None\<close> when Python raises (\<open>ValueError\<close> for text
  that is not a number, \<open>OverflowError\<close> for an integer beyond the doubles, \<open>TypeError\<close>
  for \<open>None\<close>, a Series of several values or another object).
\<close>

fun py_float :: "cell \<Rightarrow> pyfloat option" where
  "py_float (CStr s) = float_of_str s"
| "py_float (CFloat f) = Some f"
| "py_float (CInt i) = (if double_overflow \<le> \<bar>real_of_int i\<bar> then None else Some (Fin (real_of_int i)))"
| "py_float (CBool b) = Some (Fin (if b then 1 else 0))"
| "py_float CNone = None"
| "py_float (CSeries vs) = None"
| "py_float (COther s) = None"

subsection \<open>clean\_numeric (app.py, lines 30-36)\<close>

text \<open>
  \<^verbatim>\<open>
  def clean_numeric(val):
      if isinstance(val, str):
          val = val.replace("<", "").replace(">", "").strip()
      try:
          return float(val)
      except:
          return None
  \<close>
\<close>

definition clean_numeric :: "cell \<Rightarrow> pyfloat option" where
  "clean_numeric val =
     (let val' = (case val of
                    CStr s \<Rightarrow> CStr (py_strip (py_replace (CHR ''>'') [] (py_replace (CHR ''<'') [] s)))
                  | _ \<Rightarrow> val)
      in py_float val')"

subsection \<open>compare\_value (app.py, lines 38-43)\<close>

text \<open>
  \<^verbatim>\<open>
  def compare_value(test_val, min_val, max_val):
      if min_val is not None and test_val < min_val:
          return False
      if max_val is not None and test_val > max_val:
          return False
      return True
  \<close>
  \<open>None\<close> is the \<open>None\<close> of the option type; \<open>True\<close> is PASS.
\<close>

definition compare_value :: "pyfloat \<Rightarrow> pyfloat option \<Rightarrow> pyfloat option \<Rightarrow> bool" where
  "compare_value test_val min_val max_val =
     (if min_val \<noteq> None \<and> float_lt test_val (the min_val) then False
      else if max_val \<noteq> None \<and> float_gt test_val (the max_val) then False
      else True)"

subsection \<open>extract\_product\_from\_sheetname (app.py, lines 16-28)\<close>

text \<open>
  The fallback calls
  \<^verbatim>\<open>re.search(r"(MOGAS.*RON|JET.*FUEL|HSD|DIESEL|HOBC|OCTANE)", sheet_upper)\<close>.
  \<open>re.search\<close> tries the start positions from left to right and, at one position, the
  alternatives from left to right. The dot matches every character but the line feed,
  and \<open>.*\<close> is greedy: it takes the longest run first and gives characters back one by
  one until the closing word matches.
\<close>

definition dot_run :: "string \<Rightarrow> nat" where
  "dot_run s = length (takeWhile (\<lambda>c. c \<noteq> CHR 0x0A) s)"

text \<open>\<open>pre.*post\<close> matched at the start of \<open>s\<close>; the result is the text matched.\<close>

definition match_greedy :: "string \<Rightarrow> string \<Rightarrow> string \<Rightarrow> string option" where
  "match_greedy pre post s =
     (if take (length pre) s = pre then
        (let rest = drop (length pre) s in
         case filter (\<lambda>k. take (length post) (drop k rest) = post) (rev [0..<Suc (dot_run rest)]) of
           [] \<Rightarrow> None
         | k # _ \<Rightarrow> Some (pre @ take k rest @ post))
      else None)"

definition match_lit :: "string \<Rightarrow> string \<Rightarrow> string option" where
  "match_lit w s = (if take (length w) s = w then Some w else None)"

fun first_some :: "'a option list \<Rightarrow> 'a option" where
  "first_some [] = None"
| "first_some (Some x # _) = Some x"
| "first_some (None # xs) = first_some xs"

definition match_here :: "string \<Rightarrow> string option" where
  "match_here s =
     first_some [match_greedy ''MOGAS'' ''RON'' s, match_greedy ''JET'' ''FUEL'' s,
                 match_lit ''HSD'' s, match_lit ''DIESEL'' s, match_lit ''HOBC'' s,
                 match_lit ''OCTANE'' s]"

fun re_search :: "string \<Rightarrow> string option" where
  "re_search [] = match_here []"
| "re_search (c # cs) = (case match_here (c # cs) of Some m \<Rightarrow> Some m | None \<Rightarrow> re_search cs)"

text \<open>
  \<^verbatim>\<open>
  def extract_product_from_sheetname(sheet_name):
      sheet_upper = sheet_name.upper()
      if "MOGAS" in sheet_upper:
          return "MOGAS 92 RON" if "92" in sheet_upper else "MOGAS 95 RON"
      elif "HSD" in sheet_upper or "DIESEL" in sheet_upper:
          return "HSD"
      elif "JET" in sheet_upper:
          return "JET FUEL"
      elif "HOBC" in sheet_upper or "OCTANE" in sheet_upper:
          return "HOBC"
      else:
          match = re.search(r"(MOGAS.*RON|JET.*FUEL|HSD|DIESEL|HOBC|OCTANE)", sheet_upper)
          return match.group(1).strip() if match else "UNKNOWN"
  \<close>
\<close>

definition extract_product_from_sheetname :: "string \<Rightarrow> string" where
  "extract_product_from_sheetname sheet_name =
     (let sheet_upper = py_upper sheet_name in
      if py_in ''MOGAS'' sheet_upper then
        (if py_in ''92'' sheet_upper then ''MOGAS 92 RON'' else ''MOGAS 95 RON'')
      else if py_in ''HSD'' sheet_upper \<or> py_in ''DIESEL'' sheet_upper then ''HSD''
      else if py_in ''JET'' sheet_upper then ''JET FUEL''
      else if py_in ''HOBC'' sheet_upper \<or> py_in ''OCTANE'' sheet_upper then ''HOBC''
      else (case re_search sheet_upper of
              Some m \<Rightarrow> py_strip m
            | None \<Rightarrow> ''UNKNOWN''))"


text \<open>
  The fallback as the specification words it, for comparison with the source: the same
  search, but with a non-greedy span between the two anchor words (the shortest run that
  lets the closing word match).
\<close>

definition match_nongreedy_spec :: "string \<Rightarrow> string \<Rightarrow> string \<Rightarrow> string option" where
  "match_nongreedy_spec pre post s =
     (if take (length pre) s = pre then
        (let rest = drop (length pre) s in
         case filter (\<lambda>k. take (length post) (drop k rest) = post) [0..<Suc (dot_run rest)] of
           [] \<Rightarrow> None
         | k # _ \<Rightarrow> Some (pre @ take k rest @ post))
      else None)"

definition match_here_spec :: "string \<Rightarrow> string option" where
  "match_here_spec s =
     first_some [match_nongreedy_spec ''MOGAS'' ''RON'' s, match_nongreedy_spec ''JET'' ''FUEL'' s,
                 match_lit ''HSD'' s, match_lit ''DIESEL'' s, match_lit ''HOBC'' s,
                 match_lit ''OCTANE'' s]"

fun re_search_spec :: "string \<Rightarrow> string option" where
  "re_search_spec [] = match_here_spec []"
| "re_search_spec (c # cs) =
     (case match_here_spec (c # cs) of Some m \<Rightarrow> Some m | None \<Rightarrow> re_search_spec cs)"


subsection \<open>find\_table\_start and clean\_table (app.py, lines 9-14 and 45-54)\<close>

text \<open>
  A raw sheet, read with \<open>header=None\<close>, is the list of its rows, top to bottom; its
  index is 0, 1, 2, ... so a row's label is its position.
  \<^verbatim>\<open>
  def find_table_start(df):
      for i, row in df.iterrows():
          row_str = " ".join(str(x) for x in row.values if pd.notna(x)).lower()
          if "description" in row_str or "method" in row_str:
              return i
      return None
  \<close>
\<close>

type_synonym grid = "cell list list"

definition row_str :: "(cell \<Rightarrow> string) \<Rightarrow> cell list \<Rightarrow> string" where
  "row_str repr row = py_lower (py_join '' '' (map (py_str repr) (filter notna row)))"

definition is_header_row :: "(cell \<Rightarrow> string) \<Rightarrow> cell list \<Rightarrow> bool" where
  "is_header_row repr row =
     (py_in ''description'' (row_str repr row) \<or> py_in ''method'' (row_str repr row))"

fun find_from :: "(cell \<Rightarrow> string) \<Rightarrow> nat \<Rightarrow> grid \<Rightarrow> nat option" where
  "find_from repr i [] = None"
| "find_from repr i (row # rest) =
     (if is_header_row repr row then Some i else find_from repr (Suc i) rest)"

definition find_table_start :: "(cell \<Rightarrow> string) \<Rightarrow> grid \<Rightarrow> nat option" where
  "find_table_start repr df = find_from repr 0 df"

text \<open>
  \<^verbatim>\<open>
  def clean_table(df):
      start_row = find_table_start(df)
      if start_row is None:
          return None
      table = df.iloc[start_row:]
      table.columns = table.iloc[0]
      table = table.drop(table.index[0]).reset_index(drop=True)
      table.columns = [str(c).strip().replace("\n", " ") for c in table.columns]
      table = table.dropna(how="all").reset_index(drop=True)
      return table
  \<close>
  A table is its column names and its rows; \<open>dropna(how="all")\<close> drops the rows in which
  every cell is missing.
\<close>

record table =
  columns :: "string list"
  rows :: "cell list list"

definition column_name :: "(cell \<Rightarrow> string) \<Rightarrow> cell \<Rightarrow> string" where
  "column_name repr c = py_replace (CHR 0x0A) '' '' (py_strip (py_str repr c))"

definition all_na :: "cell list \<Rightarrow> bool" where
  "all_na row = list_all (\<lambda>c. \<not> notna c) row"

definition clean_table :: "(cell \<Rightarrow> string) \<Rightarrow> grid \<Rightarrow> table option" where
  "clean_table repr df =
     (case find_table_start repr df of
        None \<Rightarrow> None
      | Some start_row \<Rightarrow>
          (case drop start_row df of
             [] \<Rightarrow> None
           | header # body \<Rightarrow>
               Some \<lparr>columns = map (column_name repr) header,
                     rows = filter (\<lambda>r. \<not> all_na r) body\<rparr>))"

text \<open>
  The header test as the specification words it, for comparison with the source: the
  non-empty cell values concatenated, with nothing between them.
\<close>

definition row_concat_spec :: "(cell \<Rightarrow> string) \<Rightarrow> cell list \<Rightarrow> string" where
  "row_concat_spec repr row = py_lower (concat (map (py_str repr) (filter notna row)))"

definition is_header_row_spec :: "(cell \<Rightarrow> string) \<Rightarrow> cell list \<Rightarrow> bool" where
  "is_header_row_spec repr row =
     (py_in ''description'' (row_concat_spec repr row) \<or> py_in ''method'' (row_concat_spec repr row))"

subsection \<open>difflib: SequenceMatcher and get\_close\_matches\<close>

text \<open>
  The fuzzy matcher is \<open>difflib.get_close_matches\<close> of the Python library (3.12), which
  scores a candidate with \<open>SequenceMatcher().ratio()\<close>. The matcher is built without a
  junk test, so its set of junk elements is empty; \<open>a\<close> is the candidate and \<open>b\<close> the
  word looked for. A ratio is modelled by the real it denotes.

  \<open>b2j\<close> maps an element to the positions of \<open>b\<close> where it stands, in increasing order;
  when \<open>b\<close> has 200 elements or more, an element that fills more than one percent of it
  (plus one) is popular and has no positions.
\<close>

definition popular :: "string \<Rightarrow> char \<Rightarrow> bool" where
  "popular b c = (200 \<le> length b \<and> length b div 100 + 1 < count_list b c)"

definition b2j :: "string \<Rightarrow> char \<Rightarrow> nat list" where
  "b2j b c = (if popular b c then [] else filter (\<lambda>j. b ! j = c) [0..<length b])"

text \<open>
  \<^verbatim>\<open>
  besti, bestj, bestsize = alo, blo, 0
  j2len = {}
  for i in range(alo, ahi):
      newj2len = {}
      for j in b2j.get(a[i], nothing):
          if j < blo: continue
          if j >= bhi: break
          k = newj2len[j] = j2lenget(j-1, 0) + 1
          if k > bestsize:
              besti, bestj, bestsize = i-k+1, j-k+1, k
      j2len = newj2len
  \<close>
  The dictionary \<open>j2len\<close> is a function that is 0 where the dictionary has no entry (an
  entry is never 0). The key \<open>j-1\<close> is \<open>-1\<close> for \<open>j = 0\<close>, which is never an entry.
\<close>

fun inner_loop ::
  "(nat \<Rightarrow> nat) \<Rightarrow> nat \<Rightarrow> nat \<Rightarrow> nat \<Rightarrow> nat list \<Rightarrow> (nat \<Rightarrow> nat) \<times> nat \<times> nat \<times> nat
     \<Rightarrow> (nat \<Rightarrow> nat) \<times> nat \<times> nat \<times> nat" where
  "inner_loop j2len i blo bhi [] st = st"
| "inner_loop j2len i blo bhi (j # js) (newj2len, besti, bestj, bestsize) =
     (if j < blo then inner_loop j2len i blo bhi js (newj2len, besti, bestj, bestsize)
      else if bhi \<le> j then (newj2len, besti, bestj, bestsize)
      else
        (let k = (if j = 0 then 0 else j2len (j - 1)) + 1 in
         if bestsize < k
         then inner_loop j2len i blo bhi js (newj2len(j := k), i + 1 - k, j + 1 - k, k)
         else inner_loop j2len i blo bhi js (newj2len(j := k), besti, bestj, bestsize)))"

fun outer_loop ::
  "string \<Rightarrow> string \<Rightarrow> nat \<Rightarrow> nat \<Rightarrow> nat list \<Rightarrow> (nat \<Rightarrow> nat) \<times> nat \<times> nat \<times> nat
     \<Rightarrow> nat \<times> nat \<times> nat" where
  "outer_loop a b blo bhi [] (j2len, besti, bestj, bestsize) = (besti, bestj, bestsize)"
| "outer_loop a b blo bhi (i # is) (j2len, besti, bestj, bestsize) =
     outer_loop a b blo bhi is
       (inner_loop j2len i blo bhi (b2j b (a ! i)) (\<lambda>_. 0, besti, bestj, bestsize))"

text \<open>
  \<^verbatim>\<open>
  while besti > alo and bestj > blo and \
        not isbjunk(b[bestj-1]) and \
        a[besti-1] == b[bestj-1]:
      besti, bestj, bestsize = besti-1, bestj-1, bestsize+1
  while besti+bestsize < ahi and bestj+bestsize < bhi and \
        not isbjunk(b[bestj+bestsize]) and \
        a[besti+bestsize] == b[bestj+bestsize]:
      bestsize += 1
  \<close>
  Nothing is junk, so \<open>not isbjunk(...)\<close> holds, and the two loops that follow in the
  source, which extend the match over junk only, do nothing.
\<close>

function extend_left :: "string \<Rightarrow> string \<Rightarrow> nat \<Rightarrow> nat \<Rightarrow> nat \<times> nat \<times> nat \<Rightarrow> nat \<times> nat \<times> nat" where
  "extend_left a b alo blo (besti, bestj, bestsize) =
     (if alo < besti \<and> blo < bestj \<and> a ! (besti - 1) = b ! (bestj - 1)
      then extend_left a b alo blo (besti - 1, bestj - 1, bestsize + 1)
      else (besti, bestj, bestsize))"
  by pat_completeness auto
termination
  by (relation "measure (\<lambda>(a, b, alo, blo, besti, bestj, bestsize). besti)") auto

function extend_right :: "string \<Rightarrow> string \<Rightarrow> nat \<Rightarrow> nat \<Rightarrow> nat \<times> nat \<times> nat \<Rightarrow> nat \<times> nat \<times> nat" where
  "extend_right a b ahi bhi (besti, bestj, bestsize) =
     (if besti + bestsize < ahi \<and> bestj + bestsize < bhi
         \<and> a ! (besti + bestsize) = b ! (bestj + bestsize)
      then extend_right a b ahi bhi (besti, bestj, bestsize + 1)
      else (besti, bestj, bestsize))"
  by pat_completeness auto
termination
  by (relation "measure (\<lambda>(a, b, ahi, bhi, besti, bestj, bestsize). ahi - (besti + bestsize))") auto

declare extend_left.simps [simp del] extend_right.simps [simp del]

definition find_longest_match :: "string \<Rightarrow> string \<Rightarrow> nat \<Rightarrow> nat \<Rightarrow> nat \<Rightarrow> nat \<Rightarrow> nat \<times> nat \<times> nat" where
  "find_longest_match a b alo ahi blo bhi =
     extend_right a b ahi bhi
       (extend_left a b alo blo
          (outer_loop a b blo bhi [alo..<ahi] (\<lambda>_. 0, alo, blo, 0)))"

text \<open>
  A match \<open>find_longest_match\<close> returns lies inside the ranges it was asked to search;
  the loop over the queue terminates for that reason.
\<close>

definition block_ok :: "nat \<Rightarrow> nat \<Rightarrow> nat \<Rightarrow> nat \<Rightarrow> nat \<times> nat \<times> nat \<Rightarrow> bool" where
  "block_ok alo ahi blo bhi m =
     (case m of (i, j, k) \<Rightarrow>
        (k = 0 \<and> i = alo \<and> j = blo) \<or> (alo \<le> i \<and> i + k \<le> ahi \<and> blo \<le> j \<and> j + k \<le> bhi))"

definition len_ok :: "nat \<Rightarrow> nat \<Rightarrow> nat \<Rightarrow> (nat \<Rightarrow> nat) \<Rightarrow> bool" where
  "len_ok alo blo i f = (\<forall>j. f j \<le> i - alo \<and> f j \<le> j + 1 - blo)"

lemma inner_loop_ok:
  assumes "len_ok alo blo i j2len" "alo \<le> i" "i < ahi"
    and "len_ok alo blo (Suc i) new" "block_ok alo ahi blo bhi best"
  shows "len_ok alo blo (Suc i) (fst (inner_loop j2len i blo bhi js (new, best)))
         \<and> block_ok alo ahi blo bhi (snd (inner_loop j2len i blo bhi js (new, best)))"
  using assms(4,5)
proof (induction js arbitrary: new best)
  case Nil
  then show ?case by simp
next
  case (Cons j js)
  obtain bi bj bs where best: "best = (bi, bj, bs)" by (cases best) auto
  show ?case
  proof (cases "j < blo")
    case True
    then show ?thesis using Cons best by simp
  next
    case False
    note jb = this
    show ?thesis
    proof (cases "bhi \<le> j")
      case True
      then show ?thesis using jb Cons.prems best by simp
    next
      case False
      define k where "k = (if j = 0 then 0 else j2len (j - 1)) + 1"
      have k1: "k \<le> i + 1 - alo"
        using assms(1,2) unfolding k_def len_ok_def
        by (auto simp: le_diff_conv2 Suc_diff_le intro: le_trans)
      have k2: "k \<le> j + 1 - blo"
      proof (cases "j = 0")
        case True
        then show ?thesis using jb by (simp add: k_def)
      next
        case False
        then have "j2len (j - 1) \<le> j - 1 + 1 - blo" using assms(1) unfolding len_ok_def by blast
        then show ?thesis using False jb by (simp add: k_def)
      qed
      have kpos: "0 < k" by (simp add: k_def)
      have new': "len_ok alo blo (Suc i) (new(j := k))"
        using Cons.prems(1) k1 k2 unfolding len_ok_def by auto
      have blk: "block_ok alo ahi blo bhi (i + 1 - k, j + 1 - k, k)"
        using k1 k2 kpos assms(2,3) jb False unfolding block_ok_def by auto
      show ?thesis
      proof (cases "bs < k")
        case True
        have "inner_loop j2len i blo bhi (j # js) (new, best)
              = inner_loop j2len i blo bhi js (new(j := k), i + 1 - k, j + 1 - k, k)"
          using True jb False best by (simp add: k_def Let_def)
        then show ?thesis using Cons.IH[OF new' blk] by (simp only:)
      next
        case F: False
        have "inner_loop j2len i blo bhi (j # js) (new, best)
              = inner_loop j2len i blo bhi js (new(j := k), best)"
          using F jb False best by (simp add: k_def Let_def)
        then show ?thesis using Cons.IH[OF new' Cons.prems(2)] by (simp only:)
      qed
    qed
  qed
qed

lemma outer_loop_ok:
  assumes "len_ok alo blo i0 j2len" "alo \<le> i0" "block_ok alo ahi blo bhi best"
  shows "block_ok alo ahi blo bhi (outer_loop a b blo bhi [i0..<ahi] (j2len, best))"
  using assms
proof (induction "ahi - i0" arbitrary: i0 j2len best)
  case 0
  then have "[i0..<ahi] = []" by simp
  then show ?case using 0 by (cases best) simp
next
  case (Suc n)
  then have lt: "i0 < ahi" by simp
  then have upt: "[i0..<ahi] = i0 # [Suc i0..<ahi]" by (simp add: upt_conv_Cons)
  obtain bi bj bs where best: "best = (bi, bj, bs)" by (cases best) auto
  let ?st = "inner_loop j2len i0 blo bhi (b2j b (a ! i0)) (\<lambda>_. 0, best)"
  have z: "len_ok alo blo (Suc i0) (\<lambda>_. 0)" by (simp add: len_ok_def)
  from inner_loop_ok[where bhi = bhi and js = "b2j b (a ! i0)", OF Suc.prems(1) Suc.prems(2) lt z Suc.prems(3)]
  have f: "len_ok alo blo (Suc i0) (fst ?st)" and s: "block_ok alo ahi blo bhi (snd ?st)" by auto
  have n: "n = ahi - Suc i0" using Suc.hyps(2) by simp
  have le: "alo \<le> Suc i0" using Suc.prems(2) by simp
  have "outer_loop a b blo bhi [i0..<ahi] (j2len, best)
        = outer_loop a b blo bhi [Suc i0..<ahi] (fst ?st, snd ?st)"
    by (simp add: upt best)
  then show ?case using Suc.hyps(1)[OF n f le s] by simp
qed

lemma extend_left_ok:
  "block_ok alo ahi blo bhi m \<Longrightarrow> block_ok alo ahi blo bhi (extend_left a b alo blo m)"
proof (induction a b alo blo m rule: extend_left.induct)
  case (1 a b alo blo besti bestj bestsize)
  show ?case
  proof (cases "alo < besti \<and> blo < bestj \<and> a ! (besti - 1) = b ! (bestj - 1)")
    case True
    have "block_ok alo ahi blo bhi (besti - 1, bestj - 1, bestsize + 1)"
      using True "1.prems" unfolding block_ok_def by auto
    with True "1.IH"
    have "block_ok alo ahi blo bhi (extend_left a b alo blo (besti - 1, bestj - 1, bestsize + 1))"
      by blast
    moreover have "extend_left a b alo blo (besti, bestj, bestsize)
        = extend_left a b alo blo (besti - 1, bestj - 1, bestsize + 1)"
      using True by (subst extend_left.simps) simp
    ultimately show ?thesis by simp
  next
    case False
    then have "extend_left a b alo blo (besti, bestj, bestsize) = (besti, bestj, bestsize)"
      by (subst extend_left.simps) auto
    then show ?thesis using "1.prems" by simp
  qed
qed

lemma extend_right_ok:
  "block_ok alo ahi blo bhi m \<Longrightarrow> block_ok alo ahi blo bhi (extend_right a b ahi bhi m)"
proof (induction a b ahi bhi m rule: extend_right.induct)
  case (1 a b ahi bhi besti bestj bestsize)
  show ?case
  proof (cases "besti + bestsize < ahi \<and> bestj + bestsize < bhi
         \<and> a ! (besti + bestsize) = b ! (bestj + bestsize)")
    case True
    have "block_ok alo ahi blo bhi (besti, bestj, bestsize + 1)"
      using True "1.prems" unfolding block_ok_def by auto
    with True "1.IH"
    have "block_ok alo ahi blo bhi (extend_right a b ahi bhi (besti, bestj, bestsize + 1))"
      by blast
    moreover have "extend_right a b ahi bhi (besti, bestj, bestsize)
        = extend_right a b ahi bhi (besti, bestj, bestsize + 1)"
      using True by (subst extend_right.simps) simp
    ultimately show ?thesis by simp
  next
    case False
    then have "extend_right a b ahi bhi (besti, bestj, bestsize) = (besti, bestj, bestsize)"
      by (subst extend_right.simps) auto
    then show ?thesis using "1.prems" by simp
  qed
qed

lemma find_longest_match_ok:
  "block_ok alo ahi blo bhi (find_longest_match a b alo ahi blo bhi)"
proof -
  have "len_ok alo blo alo (\<lambda>_. 0)" by (simp add: len_ok_def)
  moreover have "block_ok alo ahi blo bhi (alo, blo, 0)" by (simp add: block_ok_def)
  ultimately have "block_ok alo ahi blo bhi (outer_loop a b blo bhi [alo..<ahi] (\<lambda>_. 0, alo, blo, 0))"
    using outer_loop_ok[of alo blo alo "\<lambda>_. 0" ahi bhi "(alo, blo, 0)" a b] by simp
  then show ?thesis unfolding find_longest_match_def
    by (intro extend_right_ok extend_left_ok)
qed

lemma find_longest_match_bounds:
  "find_longest_match a b alo ahi blo bhi = (i, j, k) \<Longrightarrow> k \<noteq> 0
   \<Longrightarrow> alo \<le> i \<and> i + k \<le> ahi \<and> blo \<le> j \<and> j + k \<le> bhi"
  using find_longest_match_ok[of alo ahi blo bhi a b] by (simp add: block_ok_def)

text \<open>
  \<^verbatim>\<open>
  queue = [(0, la, 0, lb)]
  matching_blocks = []
  while queue:
      alo, ahi, blo, bhi = queue.pop()
      i, j, k = x = self.find_longest_match(alo, ahi, blo, bhi)
      if k:
          matching_blocks.append(x)
          if alo < i and blo < j:
              queue.append((alo, i, blo, j))
          if i+k < ahi and j+k < bhi:
              queue.append((i+k, ahi, j+k, bhi))
  matching_blocks.sort()
  \<close>
  The queue is a stack: \<open>pop\<close> takes the element appended last, which is the head
  of the list here.
\<close>

function blocks_loop ::
  "string \<Rightarrow> string \<Rightarrow> (nat \<times> nat \<times> nat \<times> nat) list \<Rightarrow> (nat \<times> nat \<times> nat) list
     \<Rightarrow> (nat \<times> nat \<times> nat) list" where
  "blocks_loop a b [] matching_blocks = matching_blocks"
| "blocks_loop a b ((alo, ahi, blo, bhi) # queue) matching_blocks =
     (case find_longest_match a b alo ahi blo bhi of
        (i, j, k) \<Rightarrow>
          if k \<noteq> 0 then
            blocks_loop a b
              ((if i + k < ahi \<and> j + k < bhi then [(i + k, ahi, j + k, bhi)] else [])
               @ (if alo < i \<and> blo < j then [(alo, i, blo, j)] else [])
               @ queue)
              (matching_blocks @ [(i, j, k)])
          else blocks_loop a b queue matching_blocks)"
  by pat_completeness auto
termination
proof (relation "measure (\<lambda>(a, b, queue, mb). sum_list (map (\<lambda>(alo, ahi, blo, bhi). 2 * (ahi - alo) + 1) queue))",
    goal_cases)
  case 1
  show ?case by simp
next
  case (2 a b alo ahi blo bhi queue matching_blocks i y j k)
  then have "find_longest_match a b alo ahi blo bhi = (i, j, k)" by simp
  from find_longest_match_bounds[OF this] 2(3) show ?case by auto
next
  case 3
  show ?case by simp
qed

declare blocks_loop.simps [simp del]

text \<open>
  \<^verbatim>\<open>
  i1 = j1 = k1 = 0
  non_adjacent = []
  for i2, j2, k2 in matching_blocks:
      if i1 + k1 == i2 and j1 + k1 == j2:
          k1 += k2
      else:
          if k1:
              non_adjacent.append((i1, j1, k1))
          i1, j1, k1 = i2, j2, k2
  if k1:
      non_adjacent.append((i1, j1, k1))
  non_adjacent.append( (la, lb, 0) )
  \<close>
\<close>

fun collapse ::
  "nat \<times> nat \<times> nat \<Rightarrow> (nat \<times> nat \<times> nat) list \<Rightarrow> (nat \<times> nat \<times> nat) list \<Rightarrow> (nat \<times> nat \<times> nat) list" where
  "collapse (i1, j1, k1) [] non_adjacent =
     (if k1 \<noteq> 0 then non_adjacent @ [(i1, j1, k1)] else non_adjacent)"
| "collapse (i1, j1, k1) ((i2, j2, k2) # rest) non_adjacent =
     (if i1 + k1 = i2 \<and> j1 + k1 = j2 then collapse (i1, j1, k1 + k2) rest non_adjacent
      else collapse (i2, j2, k2) rest
             (if k1 \<noteq> 0 then non_adjacent @ [(i1, j1, k1)] else non_adjacent))"

definition get_matching_blocks :: "string \<Rightarrow> string \<Rightarrow> (nat \<times> nat \<times> nat) list" where
  "get_matching_blocks a b =
     collapse (0, 0, 0) (sort (blocks_loop a b [(0, length a, 0, length b)] [])) []
     @ [(length a, length b, 0)]"

text \<open>
  \<^verbatim>\<open>
  def _calculate_ratio(matches, length):
      if length:
          return 2.0 * matches / length
      return 1.0
  \<close>
  \<open>ratio\<close> sums the sizes of the matching blocks; \<open>quick_ratio\<close> counts the elements
  the two sequences share as multisets; \<open>real_quick_ratio\<close> takes the shorter length.
\<close>

definition calculate_ratio :: "nat \<Rightarrow> nat \<Rightarrow> real" where
  "calculate_ratio matches len = (if len \<noteq> 0 then 2 * real matches / real len else 1)"

definition ratio :: "string \<Rightarrow> string \<Rightarrow> real" where
  "ratio a b =
     calculate_ratio (sum_list (map (\<lambda>(i, j, k). k) (get_matching_blocks a b))) (length a + length b)"

text \<open>
  \<^verbatim>\<open>
  avail = {}
  availhas, matches = avail.__contains__, 0
  for elt in self.a:
      if availhas(elt):
          numb = avail[elt]
      else:
          numb = fullbcount.get(elt, 0)
      avail[elt] = numb - 1
      if numb > 0:
          matches = matches + 1
  \<close>
\<close>

fun quick_loop :: "string \<Rightarrow> string \<Rightarrow> (char \<rightharpoonup> int) \<Rightarrow> nat \<Rightarrow> nat" where
  "quick_loop b [] avail matches = matches"
| "quick_loop b (elt # rest) avail matches =
     (let numb = (case avail elt of Some n \<Rightarrow> n | None \<Rightarrow> int (count_list b elt))
      in quick_loop b rest (avail(elt \<mapsto> numb - 1)) (if 0 < numb then matches + 1 else matches))"

definition quick_ratio :: "string \<Rightarrow> string \<Rightarrow> real" where
  "quick_ratio a b = calculate_ratio (quick_loop b a Map.empty 0) (length a + length b)"

definition real_quick_ratio :: "string \<Rightarrow> string \<Rightarrow> real" where
  "real_quick_ratio a b = calculate_ratio (min (length a) (length b)) (length a + length b)"

text \<open>
  \<^verbatim>\<open>
  def get_close_matches(word, possibilities, n=3, cutoff=0.6):
      if not n >  0:
          raise ValueError("n must be > 0: %r" % (n,))
      if not 0.0 <= cutoff <= 1.0:
          raise ValueError("cutoff must be in [0.0, 1.0]: %r" % (cutoff,))
      result = []
      s = SequenceMatcher()
      s.set_seq2(word)
      for x in possibilities:
          s.set_seq1(x)
          if s.real_quick_ratio() >= cutoff and \
             s.quick_ratio() >= cutoff and \
             s.ratio() >= cutoff:
              result.append((s.ratio(), x))
      result = _nlargest(n, result)
      return [x for score, x in result]
  \<close>
  app.py calls it with \<open>n=1\<close>, and \<open>heapq.nlargest(1, result)\<close> is
  \<open>max(result)\<close>: the first of the pairs \<open>(score, x)\<close> that no other pair exceeds.
  Pairs compare as Python tuples do: by score, and for equal scores by the strings, which
  compare character by character by code point.
\<close>

fun str_gt :: "string \<Rightarrow> string \<Rightarrow> bool" where
  "str_gt [] _ = False"
| "str_gt (x # xs) [] = True"
| "str_gt (x # xs) (y # ys) = (if x = y then str_gt xs ys else (of_char y :: nat) < of_char x)"

definition tuple_gt :: "real \<times> string \<Rightarrow> real \<times> string \<Rightarrow> bool" where
  "tuple_gt p q = (if fst p \<noteq> fst q then fst q < fst p else str_gt (snd p) (snd q))"

fun py_max :: "real \<times> string \<Rightarrow> (real \<times> string) list \<Rightarrow> real \<times> string" where
  "py_max m [] = m"
| "py_max m (item # rest) = py_max (if tuple_gt item m then item else m) rest"

definition nlargest1 :: "(real \<times> string) list \<Rightarrow> (real \<times> string) list" where
  "nlargest1 result = (case result of [] \<Rightarrow> [] | x # xs \<Rightarrow> [py_max x xs])"

datatype error = KeyError | IndexError | ValueError

definition scored :: "string \<Rightarrow> string list \<Rightarrow> real \<Rightarrow> (real \<times> string) list" where
  "scored word possibilities cutoff =
     map (\<lambda>x. (ratio x word, x))
       (filter (\<lambda>x. cutoff \<le> real_quick_ratio x word \<and> cutoff \<le> quick_ratio x word
                     \<and> cutoff \<le> ratio x word) possibilities)"

definition get_close_matches :: "string \<Rightarrow> string list \<Rightarrow> real \<Rightarrow> error + string list" where
  "get_close_matches word possibilities cutoff =
     (if \<not> (0 \<le> cutoff \<and> cutoff \<le> 1) then Inl ValueError
      else Inr (map snd (nlargest1 (scored word possibilities cutoff))))"

subsection \<open>process\_vessel\_file (app.py, lines 58-139)\<close>

text \<open>
  \<open>row.get(key, default)\<close> on a row of a table: the cell under the column named
  \<open>key\<close>, the default when no column has that name, and a Series of all the cells
  when several columns have it.
\<close>

definition row_get :: "string list \<Rightarrow> cell list \<Rightarrow> string \<Rightarrow> cell \<Rightarrow> cell" where
  "row_get cols row key dflt =
     (case map snd (filter (\<lambda>(c, v). c = key) (zip cols row)) of
        [] \<Rightarrow> dflt
      | [v] \<Rightarrow> v
      | v # w # ws \<Rightarrow> CSeries (v # w # ws))"

text \<open>
  \<open>std_df["Parameter"]\<close>: the cells of a column, or \<open>KeyError\<close> (here \<open>None\<close>) when the
  table has no such column. A standards table is read with its first row as header, and
  pandas renames repeated header names, so its column names are distinct.
\<close>

definition df_column :: "table \<Rightarrow> string \<Rightarrow> cell list option" where
  "df_column df name =
     (if name \<in> set (columns df)
      then Some (map (\<lambda>r. row_get (columns df) r name (CFloat NaN)) (rows df))
      else None)"

text \<open>\<open>cell == text\<close>: only a text cell equals a string.\<close>

fun cell_eq_str :: "cell \<Rightarrow> string \<Rightarrow> bool" where
  "cell_eq_str (CStr s) m = (s = m)"
| "cell_eq_str _ m = False"

text \<open>
  \<^verbatim>\<open>
  hdip_cols = [c for c in table.columns if "hdip" in c.lower() and "result" in c.lower()]
  load_cols = [c for c in table.columns if "load" in c.lower() and "result" in c.lower()]
  if not hdip_cols:
      possible_cols = [c for c in table.columns if "result" in c.lower()]
      if len(possible_cols) >= 2:
          hdip_col, load_col = possible_cols[0], possible_cols[1]
      elif len(possible_cols) == 1:
          hdip_col, load_col = possible_cols[0], None
      else:
          continue
  else:
      hdip_col = hdip_cols[0]
      load_col = load_cols[0] if load_cols else None
  \<close>
  \<open>None\<close> stands for \<open>continue\<close>: the sheet is skipped.
\<close>

definition result_columns :: "string list \<Rightarrow> (string \<times> string option) option" where
  "result_columns cols =
     (let hdip_cols = filter (\<lambda>c. py_in ''hdip'' (py_lower c) \<and> py_in ''result'' (py_lower c)) cols;
          load_cols = filter (\<lambda>c. py_in ''load'' (py_lower c) \<and> py_in ''result'' (py_lower c)) cols
      in case hdip_cols of
           [] \<Rightarrow>
             (case filter (\<lambda>c. py_in ''result'' (py_lower c)) cols of
                [] \<Rightarrow> None
              | [p] \<Rightarrow> Some (p, None)
              | p # q # _ \<Rightarrow> Some (p, Some q))
         | h # _ \<Rightarrow> Some (h, case load_cols of [] \<Rightarrow> None | l # _ \<Rightarrow> Some l))"

text \<open>
  A row of a detail table (columns Test, HDIP Result, Load Port Result, Min, Max,
  Unit/Remarks, Status), a row of the summary (columns Sheet Name, Product, Tests
  Checked, Passed, Failed, Overall Result, Failed Tests), and the variables the loop over
  the rows of a sheet updates.
\<close>

record detail_row =
  col_test :: string
  col_hdip_result :: "pyfloat option"
  col_load_port_result :: "pyfloat option"
  col_min :: "pyfloat option"
  col_max :: "pyfloat option"
  col_unit_remarks :: cell
  col_status :: string

record summary_row =
  col_sheet_name :: string
  col_product :: string
  col_tests_checked :: nat
  col_passed :: nat
  col_failed :: nat
  col_overall_result :: string
  col_failed_tests :: string

record loop_state =
  passed :: nat
  failed :: nat
  failed_tests :: "string list"
  detailed_data :: "detail_row list"

text \<open>
  The body of the loop over the rows (lines 94-118):
  \<^verbatim>\<open>
  test_name = str(row.get("Tests Description", "")).strip()
  if not test_name:
      continue
  hdip_val = clean_numeric(row.get(hdip_col))
  load_val = clean_numeric(row.get(load_col)) if load_col else None
  match_test = get_close_matches(test_name, std_df["Parameter"].astype(str), n=1, cutoff=0.6)
  if not match_test:
      continue
  std_row = std_df[std_df["Parameter"] == match_test[0]].iloc[0]
  min_val = clean_numeric(std_row.get("Min"))
  max_val = clean_numeric(std_row.get("Max"))
  unit = std_row.get("Unit / Remarks", "")
  if isinstance(hdip_val, (int, float)) and (min_val is not None or max_val is not None):
      ok = compare_value(hdip_val, min_val, max_val)
      status = "PASS" if ok else "FAIL"
      detailed_data.append([test_name, hdip_val, load_val, min_val, max_val, unit, status])
      if ok:
          passed += 1
      else:
          failed += 1
          failed_tests.append(test_name)
  \<close>
  \<open>clean_numeric\<close> returns a float or \<open>None\<close>, so \<open>isinstance(hdip_val, (int, float))\<close>
  says that \<open>hdip_val\<close> is not \<open>None\<close>. \<open>std_df["Parameter"]\<close> raises \<open>KeyError\<close>
  when the standards table has no such column, and \<open>.iloc[0]\<close> raises \<open>IndexError\<close>
  when no cell of the column equals the name matched; neither is caught.
\<close>

definition process_row ::
  "(cell \<Rightarrow> string) \<Rightarrow> table \<Rightarrow> string list \<Rightarrow> string \<Rightarrow> string option \<Rightarrow> loop_state \<Rightarrow> cell list
     \<Rightarrow> error + loop_state" where
  "process_row repr std_df cols hdip_col load_col st row =
     (let test_name = py_strip (py_str repr (row_get cols row ''Tests Description'' (CStr ''''))) in
      if test_name = [] then Inr st
      else
        (let hdip_val = clean_numeric (row_get cols row hdip_col CNone);
             load_val = (case load_col of
                           None \<Rightarrow> None
                         | Some lc \<Rightarrow> if lc = [] then None else clean_numeric (row_get cols row lc CNone))
         in case df_column std_df ''Parameter'' of
              None \<Rightarrow> Inl KeyError
            | Some params \<Rightarrow>
                (case get_close_matches test_name (map (py_str repr) params) (6 / 10) of
                   Inl e \<Rightarrow> Inl e
                 | Inr [] \<Rightarrow> Inr st
                 | Inr (m # _) \<Rightarrow>
                     (case filter (\<lambda>r. cell_eq_str (row_get (columns std_df) r ''Parameter'' (CFloat NaN)) m)
                             (rows std_df) of
                        [] \<Rightarrow> Inl IndexError
                      | std_row # _ \<Rightarrow>
                          (let min_val = clean_numeric (row_get (columns std_df) std_row ''Min'' CNone);
                               max_val = clean_numeric (row_get (columns std_df) std_row ''Max'' CNone);
                               unit = row_get (columns std_df) std_row ''Unit / Remarks'' (CStr '''')
                           in if hdip_val \<noteq> None \<and> (min_val \<noteq> None \<or> max_val \<noteq> None) then
                                (let ok = compare_value (the hdip_val) min_val max_val;
                                     status = (if ok then ''PASS'' else ''FAIL'');
                                     st' = st\<lparr>detailed_data := detailed_data st @
                                             [\<lparr>col_test = test_name, col_hdip_result = hdip_val,
                                               col_load_port_result = load_val, col_min = min_val,
                                               col_max = max_val, col_unit_remarks = unit,
                                               col_status = status\<rparr>]\<rparr>
                                 in if ok then Inr (st'\<lparr>passed := passed st + 1\<rparr>)
                                    else Inr (st'\<lparr>failed := failed st + 1,
                                                  failed_tests := failed_tests st @ [test_name]\<rparr>))
                              else Inr st)))))"

fun process_rows ::
  "(cell \<Rightarrow> string) \<Rightarrow> table \<Rightarrow> string list \<Rightarrow> string \<Rightarrow> string option \<Rightarrow> loop_state
     \<Rightarrow> cell list list \<Rightarrow> error + loop_state" where
  "process_rows repr std_df cols hdip_col load_col st [] = Inr st"
| "process_rows repr std_df cols hdip_col load_col st (row # rest) =
     (case process_row repr std_df cols hdip_col load_col st row of
        Inl e \<Rightarrow> Inl e
      | Inr st' \<Rightarrow> process_rows repr std_df cols hdip_col load_col st' rest)"

definition initial_state :: loop_state where
  "initial_state = \<lparr>passed = 0, failed = 0, failed_tests = [], detailed_data = []\<rparr>"

text \<open>
  One pass of the loop over the sheets (lines 64-125). The standards workbook is the
  dictionary \<open>std_xls\<close> from sheet name to table, in the order of its sheets. The result
  is \<open>None\<close> when the sheet is skipped (\<open>continue\<close>), and otherwise its summary row and
  its detail table:
  \<^verbatim>\<open>
  overall = "PASS" if failed == 0 else "FAIL"
  summary.append([sheet_name, product, passed + failed, passed, failed, overall,
                  ", ".join(failed_tests)])
  detailed_results[sheet_name] = pd.DataFrame(detailed_data, columns=[...])
  \<close>
\<close>

definition process_sheet ::
  "(cell \<Rightarrow> string) \<Rightarrow> (string \<times> table) list \<Rightarrow> string \<Rightarrow> grid
     \<Rightarrow> error + (summary_row \<times> detail_row list) option" where
  "process_sheet repr std_xls sheet_name raw =
     (case clean_table repr raw of
        None \<Rightarrow> Inr None
      | Some tbl \<Rightarrow>
          (let product = extract_product_from_sheetname sheet_name in
           case get_close_matches product (map fst std_xls) (4 / 10) of
             Inl e \<Rightarrow> Inl e
           | Inr [] \<Rightarrow> Inr None
           | Inr (m # _) \<Rightarrow>
               (case map_of std_xls m of
                  None \<Rightarrow> Inl KeyError
                | Some std_df \<Rightarrow>
                    (case result_columns (columns tbl) of
                       None \<Rightarrow> Inr None
                     | Some (hdip_col, load_col) \<Rightarrow>
                         (case process_rows repr std_df (columns tbl) hdip_col load_col
                                 initial_state (rows tbl) of
                            Inl e \<Rightarrow> Inl e
                          | Inr st \<Rightarrow>
                              Inr (Some
                                (\<lparr>col_sheet_name = sheet_name, col_product = product,
                                   col_tests_checked = passed st + failed st,
                                   col_passed = passed st, col_failed = failed st,
                                   col_overall_result = (if failed st = 0 then ''PASS'' else ''FAIL''),
                                   col_failed_tests = py_join '', '' (failed_tests st)\<rparr>,
                                 detailed_data st)))))))"

text \<open>\<open>d[key] = v\<close> on a dictionary kept in insertion order.\<close>

fun dict_set :: "('k \<times> 'v) list \<Rightarrow> 'k \<Rightarrow> 'v \<Rightarrow> ('k \<times> 'v) list" where
  "dict_set [] k v = [(k, v)]"
| "dict_set ((k', v') # d) k v = (if k' = k then (k, v) # d else (k', v') # dict_set d k v)"

fun process_sheets ::
  "(cell \<Rightarrow> string) \<Rightarrow> (string \<times> table) list \<Rightarrow> (string \<times> grid) list
     \<Rightarrow> summary_row list \<Rightarrow> (string \<times> detail_row list) list
     \<Rightarrow> error + (summary_row list \<times> (string \<times> detail_row list) list)" where
  "process_sheets repr std_xls [] summary detailed_results = Inr (summary, detailed_results)"
| "process_sheets repr std_xls ((sheet_name, raw) # rest) summary detailed_results =
     (case process_sheet repr std_xls sheet_name raw of
        Inl e \<Rightarrow> Inl e
      | Inr None \<Rightarrow> process_sheets repr std_xls rest summary detailed_results
      | Inr (Some (s, d)) \<Rightarrow>
          process_sheets repr std_xls rest (summary @ [s]) (dict_set detailed_results sheet_name d))"

text \<open>
  \<open>process_vessel_file\<close>: the vessel workbook is the list of its sheets, each with its
  name and its raw grid. The result is the summary table and the detail tables; writing
  them to an Excel file (lines 131-137) is not modelled, and \<open>month_year\<close> is not used.
\<close>

definition process_vessel_file ::
  "(cell \<Rightarrow> string) \<Rightarrow> (string \<times> grid) list \<Rightarrow> (string \<times> table) list \<Rightarrow> string
     \<Rightarrow> error + (summary_row list \<times> (string \<times> detail_row list) list)" where
  "process_vessel_file repr vessel_file standards_file month_year =
     process_sheets repr standards_file vessel_file [] []"

text \<open>The invariant of a summary row, and the summary row the loop variables give.\<close>

definition summary_ok :: "summary_row \<Rightarrow> bool" where
  "summary_ok s = (col_tests_checked s = col_passed s + col_failed s
     \<and> (col_overall_result s = ''FAIL'') = (0 < col_failed s)
     \<and> (col_overall_result s = ''PASS'') = (col_failed s = 0))"

definition summary_of :: "string \<Rightarrow> loop_state \<Rightarrow> summary_row" where
  "summary_of sheet_name st =
     \<lparr>col_sheet_name = sheet_name,
      col_product = extract_product_from_sheetname sheet_name,
      col_tests_checked = passed st + failed st,
      col_passed = passed st, col_failed = failed st,
      col_overall_result = (if failed st = 0 then ''PASS'' else ''FAIL''),
      col_failed_tests = py_join '', '' (failed_tests st)\<rparr>"

text \<open>The list of failed tests has one name for each failure counted.\<close>

definition state_ok :: "loop_state \<Rightarrow> bool" where
  "state_ok st = (length (failed_tests st) = failed st)"

text \<open>
  The example of the specification: a standards workbook with one table, HSD, that asks
  a flash point of at least 38, and a vessel workbook with one sheet of one test row.
\<close>

definition example_standards :: "(string \<times> table) list" where
  "example_standards =
     [(''HSD'', \<lparr>columns = [''Parameter'', ''Min'', ''Max'', ''Unit / Remarks''],
                 rows = [[CStr ''Flash Point'', CFloat (Fin 38), CFloat NaN, CStr ''C'']]\<rparr>)]"

definition example_sheet :: "cell \<Rightarrow> cell \<Rightarrow> (string \<times> grid) list" where
  "example_sheet description measured =
     [(''HSD CARGO 1'',
       [[CStr ''Tests Description'', CStr ''HDIP Result''], [description, measured]])]"

text \<open>
  Notions for the facts about the matcher: a run of equal elements that ends at given
  positions, a block of equal elements, a slice \<open>xs[lo:hi]\<close>, the number of elements
  two slices share as multisets, and the total size of a list of blocks.
\<close>

definition run_ok :: "string \<Rightarrow> string \<Rightarrow> nat \<Rightarrow> (nat \<Rightarrow> nat) \<Rightarrow> bool" where
  "run_ok a b i f = (\<forall>j t. t < f j \<longrightarrow> a ! (i - 1 - t) = b ! (j - t))"

definition eq_ok :: "string \<Rightarrow> string \<Rightarrow> nat \<times> nat \<times> nat \<Rightarrow> bool" where
  "eq_ok a b m = (case m of (i, j, k) \<Rightarrow> \<forall>t < k. a ! (i + t) = b ! (j + t))"

definition slice :: "'a list \<Rightarrow> nat \<Rightarrow> nat \<Rightarrow> 'a list" where
  "slice xs lo hi = take (hi - lo) (drop lo xs)"

definition cap :: "string \<Rightarrow> string \<Rightarrow> nat \<times> nat \<times> nat \<times> nat \<Rightarrow> nat" where
  "cap a b r = (case r of (alo, ahi, blo, bhi) \<Rightarrow>
      size (mset (slice a alo ahi) \<inter># mset (slice b blo bhi)))"

definition ksum :: "(nat \<times> nat \<times> nat) list \<Rightarrow> nat" where
  "ksum bl = sum_list (map (\<lambda>(i, j, k). k) bl)"

definition range_ok :: "string \<Rightarrow> string \<Rightarrow> nat \<times> nat \<times> nat \<times> nat \<Rightarrow> bool" where
  "range_ok a b r = (case r of (alo, ahi, blo, bhi) \<Rightarrow> ahi \<le> length a \<and> bhi \<le> length b)"

text \<open>One of the six product words occurs in the text.\<close>

definition keyword_in :: "string \<Rightarrow> bool" where
  "keyword_in u = (py_in ''MOGAS'' u \<or> py_in ''HSD'' u \<or> py_in ''DIESEL'' u \<or> py_in ''JET'' u
       \<or> py_in ''HOBC'' u \<or> py_in ''OCTANE'' u)"

section \<open>Auxiliary facts\<close>



lemma py_in_take: "take (length sub) s = sub \<Longrightarrow> py_in sub s"
  by (cases s) auto

lemma py_in_drop: "py_in sub (drop k s) \<Longrightarrow> py_in sub s"
proof (induction s arbitrary: k)
  case Nil
  then show ?case by simp
next
  case (Cons c cs)
  show ?case
  proof (cases k)
    case 0
    with Cons.prems show ?thesis by simp
  next
    case (Suc k')
    with Cons.prems have "py_in sub (drop k' cs)" by simp
    then have "py_in sub cs" by (rule Cons.IH)
    then show ?thesis by simp
  qed
qed

lemma py_in_iff: "py_in sub s \<longleftrightarrow> (\<exists>p q. s = p @ sub @ q)"
proof (induction s)
  case Nil
  then show ?case by auto
next
  case (Cons c cs)
  show ?case
  proof
    assume "py_in sub (c # cs)"
    then consider "take (length sub) (c # cs) = sub" | "py_in sub cs" by auto
    then show "\<exists>p q. c # cs = p @ sub @ q"
    proof cases
      case 1
      then have "c # cs = [] @ sub @ drop (length sub) (c # cs)"
        by (metis append_Nil append_take_drop_id)
      then show ?thesis by blast
    next
      case 2
      with Cons.IH obtain p q where "cs = p @ sub @ q" by blast
      then have "c # cs = (c # p) @ sub @ q" by simp
      then show ?thesis by blast
    qed
  next
    assume "\<exists>p q. c # cs = p @ sub @ q"
    then obtain p q where pq: "c # cs = p @ sub @ q" by blast
    show "py_in sub (c # cs)"
    proof (cases p)
      case Nil
      with pq have "take (length sub) (c # cs) = sub" by simp
      then show ?thesis by simp
    next
      case (Cons a p')
      with pq have "cs = p' @ sub @ q" by simp
      with Cons.IH have "py_in sub cs" by blast
      then show ?thesis by simp
    qed
  qed
qed

lemma first_some_Some: "first_some xs = Some m \<Longrightarrow> Some m \<in> set xs"
  by (induction xs rule: first_some.induct) auto

lemma match_greedy_prefix: "match_greedy pre post s = Some m \<Longrightarrow> take (length pre) s = pre"
  by (simp add: match_greedy_def split: if_splits)

lemma match_nongreedy_prefix: "match_nongreedy_spec pre post s = Some m \<Longrightarrow> take (length pre) s = pre"
  by (simp add: match_nongreedy_spec_def split: if_splits)

lemma match_lit_prefix: "match_lit w s = Some m \<Longrightarrow> take (length w) s = w"
  by (simp add: match_lit_def split: if_splits)

lemma match_here_keyword: "match_here s = Some m \<Longrightarrow> keyword_in s"
  unfolding match_here_def keyword_in_def
  by (auto dest!: first_some_Some dest!: match_greedy_prefix[OF sym] match_lit_prefix[OF sym] intro: py_in_take)

lemma match_here_spec_keyword: "match_here_spec s = Some m \<Longrightarrow> keyword_in s"
  unfolding match_here_spec_def keyword_in_def
  by (auto dest!: first_some_Some dest!: match_nongreedy_prefix[OF sym] match_lit_prefix[OF sym] intro: py_in_take)

lemma keyword_in_Cons: "keyword_in cs \<Longrightarrow> keyword_in (c # cs)"
  by (auto simp: keyword_in_def)

lemma re_search_keyword: "re_search s = Some m \<Longrightarrow> keyword_in s"
  by (induction s) (auto split: option.splits dest: match_here_keyword intro: keyword_in_Cons)

lemma re_search_spec_keyword: "re_search_spec s = Some m \<Longrightarrow> keyword_in s"
  by (induction s) (auto split: option.splits dest: match_here_spec_keyword intro: keyword_in_Cons)


lemma no_keyword_upper:
  "\<not> py_in ''MOGAS'' u \<Longrightarrow> \<not> py_in ''HSD'' u \<Longrightarrow> \<not> py_in ''DIESEL'' u \<Longrightarrow> \<not> py_in ''JET'' u
   \<Longrightarrow> \<not> py_in ''HOBC'' u \<Longrightarrow> \<not> py_in ''OCTANE'' u \<Longrightarrow> re_search u = None \<and> re_search_spec u = None"
  using re_search_keyword[of u] re_search_spec_keyword[of u]
  by (cases "re_search u"; cases "re_search_spec u") (auto simp: keyword_in_def)











lemma find_from_None: "find_from repr k df = None \<longleftrightarrow> (\<forall>row \<in> set df. \<not> is_header_row repr row)"
  by (induction df arbitrary: k) auto

lemma find_from_Some:
  "find_from repr k df = Some i \<longleftrightarrow>
     (k \<le> i \<and> i - k < length df \<and> is_header_row repr (df ! (i - k))
      \<and> (\<forall>j < i - k. \<not> is_header_row repr (df ! j)))"
proof (induction df arbitrary: k)
  case Nil
  then show ?case by simp
next
  case (Cons row rest)
  show ?case
  proof (cases "is_header_row repr row")
    case True
    then show ?thesis by (cases "i - k") auto
  next
    case False
    have "find_from repr k (row # rest) = Some i \<longleftrightarrow> find_from repr (Suc k) rest = Some i"
      using False by simp
    also have "\<dots> \<longleftrightarrow> (Suc k \<le> i \<and> i - Suc k < length rest \<and> is_header_row repr (rest ! (i - Suc k))
      \<and> (\<forall>j < i - Suc k. \<not> is_header_row repr (rest ! j)))"
      by (rule Cons.IH)
    also have "\<dots> \<longleftrightarrow> (k \<le> i \<and> i - k < length (row # rest) \<and> is_header_row repr ((row # rest) ! (i - k))
      \<and> (\<forall>j < i - k. \<not> is_header_row repr ((row # rest) ! j)))"
    proof (cases "i - k")
      case 0
      then show ?thesis using False by auto
    next
      case (Suc d)
      then have d: "i - Suc k = d" "Suc k \<le> i" "k \<le> i" by auto
      have "(\<forall>j < Suc d. \<not> is_header_row repr ((row # rest) ! j)) \<longleftrightarrow> (\<forall>j < d. \<not> is_header_row repr (rest ! j))"
        using False by (auto simp: less_Suc_eq_0_disj)
      then show ?thesis using Suc d by simp
    qed
    finally show ?thesis .
  qed
qed

lemma process_sheet_Some:
  assumes "process_sheet repr std_xls sheet_name raw = Inr (Some (s, d))"
  shows "\<exists>std_df cols hdip_col load_col rs st.
           process_rows repr std_df cols hdip_col load_col initial_state rs = Inr st
           \<and> d = detailed_data st \<and> s = summary_of sheet_name st"
  using assms unfolding process_sheet_def Let_def summary_of_def
  by (fastforce split: option.splits sum.splits list.splits prod.splits)

lemma process_sheet_summary_ok:
  assumes "process_sheet repr std_xls sheet_name raw = Inr (Some (s, d))"
  shows "summary_ok s"
proof -
  from process_sheet_Some[OF assms] obtain st where "s = summary_of sheet_name st" by blast
  then show ?thesis by (cases "failed st = 0") (simp_all add: summary_ok_def summary_of_def)
qed

lemma process_sheets_summary_ok:
  "process_sheets repr std_xls sheets summary detailed = Inr (summary', detailed')
   \<Longrightarrow> \<forall>s \<in> set summary. summary_ok s \<Longrightarrow> \<forall>s \<in> set summary'. summary_ok s"
proof (induction sheets arbitrary: summary detailed)
  case Nil
  then show ?case by simp
next
  case (Cons sh rest)
  obtain name raw where sh: "sh = (name, raw)" by (cases sh) auto
  show ?case
  proof (cases "process_sheet repr std_xls name raw")
    case (Inl e)
    with Cons.prems(1) sh show ?thesis by simp
  next
    case (Inr r)
    show ?thesis
    proof (cases r)
      case None
      with Inr Cons.prems sh Cons.IH[of summary detailed] show ?thesis by simp
    next
      case (Some sd)
      obtain s d where sd: "sd = (s, d)" by (cases sd) auto
      from Inr Some sd have "summary_ok s" using process_sheet_summary_ok by blast
      with Cons.prems(2) have ok: "\<forall>x \<in> set (summary @ [s]). summary_ok x" by auto
      from Cons.prems(1) sh Inr Some sd
      have "process_sheets repr std_xls rest (summary @ [s]) (dict_set detailed name d)
            = Inr (summary', detailed')" by simp
      from Cons.IH[OF this ok] show ?thesis .
    qed
  qed
qed

lemma process_rows_all_skipped:
  "\<forall>row \<in> set rs. process_row repr std_df cols hdip_col load_col st row = Inr st
   \<Longrightarrow> process_rows repr std_df cols hdip_col load_col st rs = Inr st"
  by (induction rs) auto

lemma process_row_state_ok:
  "process_row repr std_df cols hdip_col load_col st row = Inr st' \<Longrightarrow> state_ok st \<Longrightarrow> state_ok st'"
  by (auto simp: process_row_def state_ok_def Let_def
      split: if_splits option.splits sum.splits list.splits)

lemma process_rows_state_ok:
  "process_rows repr std_df cols hdip_col load_col st rs = Inr st' \<Longrightarrow> state_ok st \<Longrightarrow> state_ok st'"
proof (induction rs arbitrary: st)
  case Nil
  then show ?case by simp
next
  case (Cons r rs)
  then show ?case
    by (cases "process_row repr std_df cols hdip_col load_col st r")
       (auto dest: process_row_state_ok)
qed

lemma process_sheet_no_failure:
  assumes "process_sheet repr std_xls sheet_name raw = Inr (Some (s, d))" "col_failed s = 0"
  shows "col_overall_result s = ''PASS'' \<and> col_failed_tests s = [] \<and> col_tests_checked s = col_passed s"
proof -
  from process_sheet_Some[OF assms(1)] obtain std_df cols hdip_col load_col rs st where
    run: "process_rows repr std_df cols hdip_col load_col initial_state rs = Inr st"
    and s: "s = summary_of sheet_name st"
    by blast
  have "state_ok initial_state" by (simp add: state_ok_def initial_state_def)
  with run have "state_ok st" by (rule process_rows_state_ok)
  with assms(2) s have "failed_tests st = []" by (simp add: state_ok_def summary_of_def)
  with assms(2) s show ?thesis by (simp add: summary_of_def)
qed

lemma b2j_sound: "j \<in> set (b2j b c) \<Longrightarrow> j < length b \<and> b ! j = c"
  by (auto simp: b2j_def split: if_splits)

lemma inner_loop_eq:
  assumes "len_ok alo blo i j2len" "run_ok a b i j2len" "alo \<le> i"
    and "\<forall>j \<in> set js. b ! j = a ! i"
    and "len_ok alo blo (Suc i) new" "run_ok a b (Suc i) new" "eq_ok a b best"
  shows "run_ok a b (Suc i) (fst (inner_loop j2len i blo bhi js (new, best)))
         \<and> eq_ok a b (snd (inner_loop j2len i blo bhi js (new, best)))"
  using assms(4-7)
proof (induction js arbitrary: new best)
  case Nil
  then show ?case by simp
next
  case (Cons j js)
  obtain bi bj bs where best: "best = (bi, bj, bs)" by (cases best) auto
  from Cons.prems(1) have js: "\<forall>j \<in> set js. b ! j = a ! i" and bj: "b ! j = a ! i" by auto
  show ?case
  proof (cases "j < blo")
    case True
    then show ?thesis using Cons.IH[OF js Cons.prems(2,3,4)] best by simp
  next
    case False
    note jb = this
    show ?thesis
    proof (cases "bhi \<le> j")
      case True
      then show ?thesis using jb Cons.prems best by simp
    next
      case False
      define k where "k = (if j = 0 then 0 else j2len (j - 1)) + 1"
      have k1: "k \<le> i + 1 - alo"
        using assms(1,3) unfolding k_def len_ok_def
        by (auto simp: le_diff_conv2 Suc_diff_le intro: le_trans)
      have k2: "k \<le> j + 1 - blo"
      proof (cases "j = 0")
        case True
        then show ?thesis using jb by (simp add: k_def)
      next
        case False
        then have "j2len (j - 1) \<le> j - 1 + 1 - blo" using assms(1) unfolding len_ok_def by blast
        then show ?thesis using False jb by (simp add: k_def)
      qed
      have run: "a ! (i - t) = b ! (j - t)" if "t < k" for t
      proof (cases t)
        case 0
        then show ?thesis using bj by simp
      next
        case (Suc t')
        with that have j0: "j \<noteq> 0" and t': "t' < j2len (j - 1)" by (auto simp: k_def split: if_splits)
        from assms(2) t' have "a ! (i - 1 - t') = b ! (j - 1 - t')" unfolding run_ok_def by blast
        then show ?thesis using Suc by simp
      qed
      have new_len: "len_ok alo blo (Suc i) (new(j := k))"
        using Cons.prems(2) k1 k2 unfolding len_ok_def by auto
      have new_run: "run_ok a b (Suc i) (new(j := k))"
        using Cons.prems(3) run unfolding run_ok_def by auto
      have blk: "eq_ok a b (i + 1 - k, j + 1 - k, k)"
        unfolding eq_ok_def
      proof (clarsimp)
        fix t assume t: "t < k"
        then have lt: "k - 1 - t < k" by simp
        have e1: "i - (k - 1 - t) = Suc i - k + t" using t k1 assms(3) by simp
        have e2: "j - (k - 1 - t) = Suc j - k + t" using t k2 jb by simp
        from run[OF lt] show "a ! (Suc i - k + t) = b ! (Suc j - k + t)"
          unfolding e1 e2 .
      qed
      show ?thesis
      proof (cases "bs < k")
        case True
        have "inner_loop j2len i blo bhi (j # js) (new, best)
              = inner_loop j2len i blo bhi js (new(j := k), i + 1 - k, j + 1 - k, k)"
          using True jb False best by (simp add: k_def Let_def)
        then show ?thesis using Cons.IH[OF js new_len new_run blk] by (simp only:)
      next
        case F: False
        have "inner_loop j2len i blo bhi (j # js) (new, best)
              = inner_loop j2len i blo bhi js (new(j := k), best)"
          using F jb False best by (simp add: k_def Let_def)
        then show ?thesis using Cons.IH[OF js new_len new_run Cons.prems(4)] by (simp only:)
      qed
    qed
  qed
qed

lemma outer_loop_eq:
  assumes "len_ok alo blo i0 j2len" "run_ok a b i0 j2len" "alo \<le> i0"
    "block_ok alo ahi blo bhi best" "eq_ok a b best"
  shows "eq_ok a b (outer_loop a b blo bhi [i0..<ahi] (j2len, best))"
  using assms
proof (induction "ahi - i0" arbitrary: i0 j2len best)
  case 0
  then have "[i0..<ahi] = []" by simp
  then show ?case using 0 by (cases best) simp
next
  case (Suc n)
  then have lt: "i0 < ahi" by simp
  then have upt: "[i0..<ahi] = i0 # [Suc i0..<ahi]" by (simp add: upt_conv_Cons)
  obtain bi bj bs where best: "best = (bi, bj, bs)" by (cases best) auto
  let ?st = "inner_loop j2len i0 blo bhi (b2j b (a ! i0)) (\<lambda>_. 0, best)"
  have z: "len_ok alo blo (Suc i0) (\<lambda>_. 0)" by (simp add: len_ok_def)
  have zr: "run_ok a b (Suc i0) (\<lambda>_. 0)" by (simp add: run_ok_def)
  have js: "\<forall>j \<in> set (b2j b (a ! i0)). b ! j = a ! i0" using b2j_sound by blast
  from inner_loop_ok[where bhi = bhi and js = "b2j b (a ! i0)", OF Suc.prems(1) Suc.prems(3) lt z Suc.prems(4)]
  have f: "len_ok alo blo (Suc i0) (fst ?st)" and s: "block_ok alo ahi blo bhi (snd ?st)" by auto
  from inner_loop_eq[where bhi = bhi, OF Suc.prems(1) Suc.prems(2) Suc.prems(3) js z zr Suc.prems(5)]
  have fr: "run_ok a b (Suc i0) (fst ?st)" and se: "eq_ok a b (snd ?st)" by auto
  have n: "n = ahi - Suc i0" using Suc.hyps(2) by simp
  have le: "alo \<le> Suc i0" using Suc.prems(3) by simp
  have "outer_loop a b blo bhi [i0..<ahi] (j2len, best)
        = outer_loop a b blo bhi [Suc i0..<ahi] (fst ?st, snd ?st)"
    by (simp add: upt best)
  then show ?case using Suc.hyps(1)[OF n f fr le s se] by simp
qed

lemma extend_left_eq:
  "eq_ok a b m \<Longrightarrow> eq_ok a b (extend_left a b alo blo m)"
proof (induction a b alo blo m rule: extend_left.induct)
  case (1 a b alo blo besti bestj bestsize)
  show ?case
  proof (cases "alo < besti \<and> blo < bestj \<and> a ! (besti - 1) = b ! (bestj - 1)")
    case True
    have "eq_ok a b (besti - 1, bestj - 1, bestsize + 1)"
      unfolding eq_ok_def
    proof (clarsimp)
      fix t assume t: "t < Suc bestsize"
      show "a ! (besti - Suc 0 + t) = b ! (bestj - Suc 0 + t)"
      proof (cases t)
        case 0
        then show ?thesis using True by simp
      next
        case (Suc t')
        with t have "t' < bestsize" by simp
        with "1.prems" have "a ! (besti + t') = b ! (bestj + t')" by (simp add: eq_ok_def)
        then show ?thesis using Suc True by simp
      qed
    qed
    with True "1.IH"
    have "eq_ok a b (extend_left a b alo blo (besti - 1, bestj - 1, bestsize + 1))" by blast
    moreover have "extend_left a b alo blo (besti, bestj, bestsize)
        = extend_left a b alo blo (besti - 1, bestj - 1, bestsize + 1)"
      using True by (subst extend_left.simps) simp
    ultimately show ?thesis by simp
  next
    case False
    then have "extend_left a b alo blo (besti, bestj, bestsize) = (besti, bestj, bestsize)"
      by (subst extend_left.simps) auto
    then show ?thesis using "1.prems" by simp
  qed
qed

lemma extend_right_eq:
  "eq_ok a b m \<Longrightarrow> eq_ok a b (extend_right a b ahi bhi m)"
proof (induction a b ahi bhi m rule: extend_right.induct)
  case (1 a b ahi bhi besti bestj bestsize)
  show ?case
  proof (cases "besti + bestsize < ahi \<and> bestj + bestsize < bhi
         \<and> a ! (besti + bestsize) = b ! (bestj + bestsize)")
    case True
    have "eq_ok a b (besti, bestj, bestsize + 1)"
      using True "1.prems" unfolding eq_ok_def by (auto simp: less_Suc_eq)
    with True "1.IH"
    have "eq_ok a b (extend_right a b ahi bhi (besti, bestj, bestsize + 1))" by blast
    moreover have "extend_right a b ahi bhi (besti, bestj, bestsize)
        = extend_right a b ahi bhi (besti, bestj, bestsize + 1)"
      using True by (subst extend_right.simps) simp
    ultimately show ?thesis by simp
  next
    case False
    then have "extend_right a b ahi bhi (besti, bestj, bestsize) = (besti, bestj, bestsize)"
      by (subst extend_right.simps) auto
    then show ?thesis using "1.prems" by simp
  qed
qed

lemma find_longest_match_eq: "eq_ok a b (find_longest_match a b alo ahi blo bhi)"
proof -
  have "eq_ok a b (outer_loop a b blo bhi [alo..<ahi] (\<lambda>_. 0, alo, blo, 0))"
    by (rule outer_loop_eq[where alo = alo and ahi = ahi])
       (simp_all add: len_ok_def run_ok_def block_ok_def eq_ok_def)
  then show ?thesis unfolding find_longest_match_def
    by (intro extend_right_eq extend_left_eq)
qed

lemma find_longest_match_slices:
  assumes "find_longest_match a b alo ahi blo bhi = (i, j, k)" "k \<noteq> 0"
    "ahi \<le> length a" "bhi \<le> length b"
  shows "slice a i (i + k) = slice b j (j + k)"
proof -
  from find_longest_match_bounds[OF assms(1,2)]
  have bd: "alo \<le> i" "i + k \<le> ahi" "blo \<le> j" "j + k \<le> bhi" by auto
  from find_longest_match_eq[of a b alo ahi blo bhi] assms(1)
  have eq: "\<forall>t < k. a ! (i + t) = b ! (j + t)" by (simp add: eq_ok_def)
  show ?thesis unfolding slice_def
  proof (rule nth_equalityI)
    show "length (take (i + k - i) (drop i a)) = length (take (j + k - j) (drop j b))"
      using bd assms(3,4) by simp
  next
    fix t assume "t < length (take (i + k - i) (drop i a))"
    then have t: "t < k" by simp
    then show "take (i + k - i) (drop i a) ! t = take (j + k - j) (drop j b) ! t"
      using eq bd assms(3,4) by simp
  qed
qed

lemma slice_append: "lo \<le> mid \<Longrightarrow> mid \<le> hi \<Longrightarrow> slice xs lo hi = slice xs lo mid @ slice xs mid hi"
proof -
  assume a: "lo \<le> mid" "mid \<le> hi"
  then have "hi - lo = (mid - lo) + (hi - mid)" by simp
  then have "take (hi - lo) (drop lo xs) = take (mid - lo) (drop lo xs) @ take (hi - mid) (drop (mid - lo) (drop lo xs))"
    by (simp only: take_add)
  then show ?thesis using a by (simp add: slice_def)
qed

lemma inter_three:
  "size (A1 \<inter># B1) + size M + size (A2 \<inter># B2) \<le> size ((A1 + M + A2) \<inter># (B1 + M + B2))"
proof -
  have "(A1 \<inter># B1) + M + (A2 \<inter># B2) \<subseteq># (A1 + M + A2) \<inter># (B1 + M + B2)"
    by (rule mset_subset_eqI) (simp add: min_def)
  then have "size ((A1 \<inter># B1) + M + (A2 \<inter># B2)) \<le> size ((A1 + M + A2) \<inter># (B1 + M + B2))"
    by (rule size_mset_mono)
  then show ?thesis by simp
qed

lemma block_cap:
  assumes "find_longest_match a b alo ahi blo bhi = (i, j, k)" "k \<noteq> 0"
    "ahi \<le> length a" "bhi \<le> length b"
  shows "cap a b (alo, i, blo, j) + k + cap a b (i + k, ahi, j + k, bhi) \<le> cap a b (alo, ahi, blo, bhi)"
proof -
  from find_longest_match_bounds[OF assms(1,2)]
  have bd: "alo \<le> i" "i + k \<le> ahi" "blo \<le> j" "j + k \<le> bhi" by auto
  have sa: "slice a alo ahi = slice a alo i @ slice a i (i + k) @ slice a (i + k) ahi"
    using bd slice_append[of alo i ahi a] slice_append[of i "i + k" ahi a] by simp
  have sb: "slice b blo bhi = slice b blo j @ slice b j (j + k) @ slice b (j + k) bhi"
    using bd slice_append[of blo j bhi b] slice_append[of j "j + k" bhi b] by simp
  have m: "slice a i (i + k) = slice b j (j + k)" by (rule find_longest_match_slices[OF assms])
  have lk: "size (mset (slice b j (j + k))) = k" using bd assms(4) by (simp add: slice_def)
  from inter_three[of "mset (slice a alo i)" "mset (slice b blo j)" "mset (slice b j (j + k))"
      "mset (slice a (i + k) ahi)" "mset (slice b (j + k) bhi)"]
  show ?thesis unfolding cap_def using sa sb m lk by (simp add: ac_simps)
qed

lemma blocks_loop_bound:
  "\<forall>r \<in> set queue. range_ok a b r
   \<Longrightarrow> ksum (blocks_loop a b queue mb) \<le> ksum mb + sum_list (map (cap a b) queue)"
proof (induction a b queue mb rule: blocks_loop.induct)
  case (1 a b matching_blocks)
  then show ?case by (simp add: blocks_loop.simps)
next
  case (2 a b alo ahi blo bhi queue mb)
  obtain i j k where f: "find_longest_match a b alo ahi blo bhi = (i, j, k)"
    by (cases "find_longest_match a b alo ahi blo bhi") auto
  from "2.prems" have r: "ahi \<le> length a" "bhi \<le> length b" and q: "\<forall>r \<in> set queue. range_ok a b r"
    by (auto simp: range_ok_def)
  show ?case
  proof (cases "k = 0")
    case True
    have "blocks_loop a b ((alo, ahi, blo, bhi) # queue) mb = blocks_loop a b queue mb"
      using f True by (simp add: blocks_loop.simps)
    moreover have "ksum (blocks_loop a b queue mb) \<le> ksum mb + sum_list (map (cap a b) queue)"
    proof -
      from True have nk: "\<not> k \<noteq> 0" by simp
      show ?thesis using "2.IH"(2)[OF f[symmetric] refl nk q] .
    qed
    ultimately show ?thesis by simp
  next
    case False
    let ?right = "if i + k < ahi \<and> j + k < bhi then [(i + k, ahi, j + k, bhi)] else []"
    let ?left = "if alo < i \<and> blo < j then [(alo, i, blo, j)] else []"
    from find_longest_match_bounds[OF f False]
    have bd: "alo \<le> i" "i + k \<le> ahi" "blo \<le> j" "j + k \<le> bhi" by auto
    have q': "\<forall>r \<in> set (?right @ ?left @ queue). range_ok a b r"
      using q r bd by (auto simp: range_ok_def)
    have e: "blocks_loop a b ((alo, ahi, blo, bhi) # queue) mb
             = blocks_loop a b (?right @ ?left @ queue) (mb @ [(i, j, k)])"
      using f False by (simp add: blocks_loop.simps)
    have "ksum (blocks_loop a b (?right @ ?left @ queue) (mb @ [(i, j, k)]))
          \<le> ksum (mb @ [(i, j, k)]) + sum_list (map (cap a b) (?right @ ?left @ queue))"
      using "2.IH"(1)[OF f[symmetric] refl False q'] .
    also have "\<dots> \<le> ksum mb + k + (cap a b (i + k, ahi, j + k, bhi) + cap a b (alo, i, blo, j)
           + sum_list (map (cap a b) queue))"
      by (simp add: ksum_def)
    also have "\<dots> \<le> ksum mb + (cap a b (alo, ahi, blo, bhi) + sum_list (map (cap a b) queue))"
      using block_cap[OF f False r] by simp
    finally show ?thesis using e by simp
  qed
qed

lemma ksum_collapse:
  "ksum (collapse (i1, j1, k1) xs acc) = ksum acc + k1 + ksum xs"
  by (induction "(i1, j1, k1)" xs acc arbitrary: i1 j1 k1 rule: collapse.induct)
     (auto simp: ksum_def)

lemma ksum_append: "ksum (xs @ ys) = ksum xs + ksum ys"
  by (simp add: ksum_def)

lemma ksum_sort: "ksum (sort xs) = ksum xs"
proof -
  have "sum_list (map (\<lambda>(i, j, k). k) (sort xs)) = sum_mset (image_mset (\<lambda>(i, j, k). k) (mset (sort xs)))"
    by (metis mset_map sum_mset_sum_list)
  also have "\<dots> = sum_mset (image_mset (\<lambda>(i, j, k). k) (mset xs))" by simp
  also have "\<dots> = sum_list (map (\<lambda>(i, j, k). k) xs)" by (metis mset_map sum_mset_sum_list)
  finally show ?thesis by (simp add: ksum_def)
qed

lemma matches_bound:
  "sum_list (map (\<lambda>(i, j, k). k) (get_matching_blocks a b)) \<le> size (mset a \<inter># mset b)"
proof -
  have "ksum (get_matching_blocks a b) = ksum (blocks_loop a b [(0, length a, 0, length b)] [])"
    unfolding get_matching_blocks_def ksum_append ksum_collapse ksum_sort
    by (simp add: ksum_def)
  also have "\<dots> \<le> ksum [] + sum_list (map (cap a b) [(0, length a, 0, length b)])"
    by (rule blocks_loop_bound) (simp add: range_ok_def)
  also have "\<dots> = size (mset a \<inter># mset b)" by (simp add: ksum_def cap_def slice_def)
  finally show ?thesis by (simp add: ksum_def)
qed

lemma inter_add_size:
  "size (add_mset x A \<inter># B) = size (A \<inter># B) + (if count A x < count B x then 1 else 0)"
proof -
  have "add_mset x A \<inter># B = (if count A x < count B x then add_mset x (A \<inter># B) else A \<inter># B)"
    by (rule multiset_eqI) (auto simp: min_def)
  then show ?thesis by simp
qed

lemma quick_loop_inter:
  assumes "\<forall>c. avail c = (if count seen c = 0 then None
                            else Some (int (count (mset b) c) - int (count seen c)))"
    and "m = size (seen \<inter># mset b)"
  shows "quick_loop b rest avail m = size ((seen + mset rest) \<inter># mset b)"
  using assms
proof (induction rest arbitrary: avail m seen)
  case Nil
  then show ?case by simp
next
  case (Cons elt rest)
  define numb where "numb = (case avail elt of Some n \<Rightarrow> n | None \<Rightarrow> int (count_list b elt))"
  have numb: "numb = int (count (mset b) elt) - int (count seen elt)"
    using Cons.prems(1) by (auto simp: numb_def count_mset)
  let ?seen = "add_mset elt seen"
  have a': "\<forall>c. (avail(elt \<mapsto> numb - 1)) c = (if count ?seen c = 0 then None
                            else Some (int (count (mset b) c) - int (count ?seen c)))"
    using Cons.prems(1) numb by (auto simp: count_eq_zero_iff)
  have m': "(if 0 < numb then m + 1 else m) = size (?seen \<inter># mset b)"
    using Cons.prems(2) numb by (simp add: inter_add_size)
  have "quick_loop b (elt # rest) avail m
        = quick_loop b rest (avail(elt \<mapsto> numb - 1)) (if 0 < numb then m + 1 else m)"
    by (simp add: numb_def Let_def)
  also have "\<dots> = size ((?seen + mset rest) \<inter># mset b)"
    by (rule Cons.IH[OF a' m'])
  finally show ?case by simp
qed

lemma quick_matches: "quick_loop b a Map.empty 0 = size (mset a \<inter># mset b)"
  using quick_loop_inter[of Map.empty "{#}" b 0 a] by simp

lemma calculate_ratio_mono: "m1 \<le> m2 \<Longrightarrow> calculate_ratio m1 l \<le> calculate_ratio m2 l"
  by (simp add: calculate_ratio_def divide_right_mono)

lemma ratio_le_quick: "ratio a b \<le> quick_ratio a b"
  unfolding ratio_def quick_ratio_def quick_matches
  by (rule calculate_ratio_mono) (rule matches_bound)

lemma quick_le_real_quick: "quick_ratio a b \<le> real_quick_ratio a b"
proof -
  have "size (mset a \<inter># mset b) \<le> size (mset a)" by (rule size_mset_mono) simp
  moreover have "size (mset a \<inter># mset b) \<le> size (mset b)" by (rule size_mset_mono) simp
  ultimately have "size (mset a \<inter># mset b) \<le> min (length a) (length b)" by simp
  then show ?thesis unfolding quick_ratio_def real_quick_ratio_def quick_matches
    by (rule calculate_ratio_mono)
qed

lemma scored_eq:
  "scored word possibilities cutoff
     = map (\<lambda>x. (ratio x word, x)) (filter (\<lambda>x. cutoff \<le> ratio x word) possibilities)"
proof -
  have "(cutoff \<le> real_quick_ratio x word \<and> cutoff \<le> quick_ratio x word \<and> cutoff \<le> ratio x word)
        = (cutoff \<le> ratio x word)" for x
    using ratio_le_quick[of x word] quick_le_real_quick[of x word] by auto
  then show ?thesis by (simp add: scored_def)
qed

lemma str_gt_irrefl: "\<not> str_gt x x"
  by (induction x) auto

lemma str_gt_trans: "str_gt x y \<Longrightarrow> str_gt y z \<Longrightarrow> str_gt x z"
proof (induction x arbitrary: y z)
  case Nil
  then show ?case by simp
next
  case (Cons c cs)
  show ?case
  proof (cases y)
    case Nil
    with Cons.prems(2) show ?thesis by simp
  next
    case y: (Cons d ds)
    show ?thesis
    proof (cases z)
      case Nil
      then show ?thesis by simp
    next
      case z: (Cons e es)
      from Cons.prems y z show ?thesis
        using Cons.IH[of ds es] by (auto split: if_splits)
    qed
  qed
qed

lemma tuple_gt_irrefl: "\<not> tuple_gt p p"
  by (simp add: tuple_gt_def str_gt_irrefl)

lemma tuple_gt_trans: "tuple_gt p q \<Longrightarrow> tuple_gt q r \<Longrightarrow> tuple_gt p r"
  unfolding tuple_gt_def using str_gt_trans[of "snd p" "snd q" "snd r"]
  by (auto split: if_splits)

lemma py_max_mem: "py_max m xs \<in> set (m # xs)"
  by (induction xs arbitrary: m) (auto split: if_splits)

lemma py_max_greatest:
  "\<forall>y \<in> S. \<not> tuple_gt y m \<Longrightarrow> \<forall>y \<in> S \<union> set (m # xs). \<not> tuple_gt y (py_max m xs)"
proof (induction xs arbitrary: m S)
  case Nil
  then show ?case by (simp add: tuple_gt_irrefl)
next
  case (Cons item rest)
  show ?case
  proof (cases "tuple_gt item m")
    case True
    have "\<forall>y \<in> S \<union> {m}. \<not> tuple_gt y item"
      using Cons.prems True tuple_gt_trans tuple_gt_irrefl by blast
    from Cons.IH[OF this] True show ?thesis by simp
  next
    case False
    with Cons.prems have "\<forall>y \<in> S \<union> {item}. \<not> tuple_gt y m" by simp
    from Cons.IH[OF this] False show ?thesis by simp
  qed
qed

section \<open>Properties\<close>

subsection \<open>Range Evaluator\<close>

text \<open>
  C1. For every value \<open>v\<close> and optional bounds, \<open>compare_value\<close> fails when the lower
  bound is present and \<open>v\<close> is below it, fails when the upper bound is present and \<open>v\<close>
  is above it, and passes otherwise: a value equal to a bound passes, and so does every
  value when both bounds are absent. The five examples of the specification hold.
\<close>

theorem compare_value_range:
  "compare_value v mn mx =
     (\<not> ((\<exists>lo. mn = Some lo \<and> float_lt v lo) \<or> (\<exists>hi. mx = Some hi \<and> float_gt v hi)))
   \<and> compare_value v None None
   \<and> compare_value (Fin b) (Some (Fin b)) None
   \<and> compare_value (Fin b) None (Some (Fin b))
   \<and> compare_value (Fin b) (Some (Fin b)) (Some (Fin b))
   \<and> compare_value (Fin 10) (Some (Fin 5)) (Some (Fin 15))
   \<and> compare_value (Fin 5) (Some (Fin 5)) (Some (Fin 15))
   \<and> \<not> compare_value (Fin (1501 / 100)) (Some (Fin 5)) (Some (Fin 15))
   \<and> compare_value (Fin 3) None (Some (Fin 15))
   \<and> \<not> compare_value (Fin 3) (Some (Fin 5)) None"
  by (cases mn; cases mx) (simp_all add: compare_value_def float_gt_def)

subsection \<open>Numeric Normalizer\<close>



subsection \<open>Product Classifier\<close>

text \<open>
  C6. \<open>extract_product_from_sheetname\<close> returns a label for every name: the keyword
  rules are applied to the upper-cased name in order and the first that matches decides
  (MOGAS with or without 92, then HSD or DIESEL, then JET, then HOBC or OCTANE); a name
  that matches no rule and not the fallback pattern gives UNKNOWN. The result is always
  one of the six labels.
\<close>

theorem extract_product_rules:
  "(py_in ''MOGAS'' (py_upper n) \<and> py_in ''92'' (py_upper n)
      \<longrightarrow> extract_product_from_sheetname n = ''MOGAS 92 RON'')
   \<and> (py_in ''MOGAS'' (py_upper n) \<and> \<not> py_in ''92'' (py_upper n)
      \<longrightarrow> extract_product_from_sheetname n = ''MOGAS 95 RON'')
   \<and> (\<not> py_in ''MOGAS'' (py_upper n) \<and> (py_in ''HSD'' (py_upper n) \<or> py_in ''DIESEL'' (py_upper n))
      \<longrightarrow> extract_product_from_sheetname n = ''HSD'')
   \<and> (\<not> py_in ''MOGAS'' (py_upper n) \<and> \<not> py_in ''HSD'' (py_upper n) \<and> \<not> py_in ''DIESEL'' (py_upper n)
        \<and> py_in ''JET'' (py_upper n)
      \<longrightarrow> extract_product_from_sheetname n = ''JET FUEL'')
   \<and> (\<not> py_in ''MOGAS'' (py_upper n) \<and> \<not> py_in ''HSD'' (py_upper n) \<and> \<not> py_in ''DIESEL'' (py_upper n)
        \<and> \<not> py_in ''JET'' (py_upper n) \<and> (py_in ''HOBC'' (py_upper n) \<or> py_in ''OCTANE'' (py_upper n))
      \<longrightarrow> extract_product_from_sheetname n = ''HOBC'')
   \<and> (\<not> py_in ''MOGAS'' (py_upper n) \<and> \<not> py_in ''HSD'' (py_upper n) \<and> \<not> py_in ''DIESEL'' (py_upper n)
        \<and> \<not> py_in ''JET'' (py_upper n) \<and> \<not> py_in ''HOBC'' (py_upper n) \<and> \<not> py_in ''OCTANE'' (py_upper n)
        \<and> re_search (py_upper n) = None
      \<longrightarrow> extract_product_from_sheetname n = ''UNKNOWN'')
   \<and> extract_product_from_sheetname n
        \<in> set [''MOGAS 92 RON'', ''MOGAS 95 RON'', ''HSD'', ''JET FUEL'', ''HOBC'', ''UNKNOWN'']"
  using no_keyword_upper[of "py_upper n"]
  by (simp add: extract_product_from_sheetname_def Let_def)

theorem extract_product_rules_witness:
  "(py_in ''MOGAS'' (py_upper ''Mogas 92 Cargo'') \<and> py_in ''92'' (py_upper ''Mogas 92 Cargo'')
      \<and> extract_product_from_sheetname ''Mogas 92 Cargo'' = ''MOGAS 92 RON'')
   \<and> (py_in ''MOGAS'' (py_upper ''mogas'') \<and> \<not> py_in ''92'' (py_upper ''mogas'')
      \<and> extract_product_from_sheetname ''mogas'' = ''MOGAS 95 RON'')
   \<and> (\<not> py_in ''MOGAS'' (py_upper ''Diesel 1'') \<and> py_in ''DIESEL'' (py_upper ''Diesel 1'')
      \<and> extract_product_from_sheetname ''Diesel 1'' = ''HSD'')
   \<and> (\<not> py_in ''MOGAS'' (py_upper ''Jet A1'') \<and> \<not> py_in ''HSD'' (py_upper ''Jet A1'')
      \<and> \<not> py_in ''DIESEL'' (py_upper ''Jet A1'') \<and> py_in ''JET'' (py_upper ''Jet A1'')
      \<and> extract_product_from_sheetname ''Jet A1'' = ''JET FUEL'')
   \<and> (\<not> py_in ''MOGAS'' (py_upper ''hobc'') \<and> \<not> py_in ''HSD'' (py_upper ''hobc'')
      \<and> \<not> py_in ''DIESEL'' (py_upper ''hobc'') \<and> \<not> py_in ''JET'' (py_upper ''hobc'')
      \<and> py_in ''HOBC'' (py_upper ''hobc'')
      \<and> extract_product_from_sheetname ''hobc'' = ''HOBC'')
   \<and> (\<not> py_in ''MOGAS'' (py_upper ''LPG'') \<and> \<not> py_in ''HSD'' (py_upper ''LPG'')
      \<and> \<not> py_in ''DIESEL'' (py_upper ''LPG'') \<and> \<not> py_in ''JET'' (py_upper ''LPG'')
      \<and> \<not> py_in ''HOBC'' (py_upper ''LPG'') \<and> \<not> py_in ''OCTANE'' (py_upper ''LPG'')
      \<and> re_search (py_upper ''LPG'') = None
      \<and> extract_product_from_sheetname ''LPG'' = ''UNKNOWN'')"
proof -
  have h1: "py_in ''MOGAS'' (py_upper ''Mogas 92 Cargo'') \<and> py_in ''92'' (py_upper ''Mogas 92 Cargo'')"
    by code_simp
  have h2: "py_in ''MOGAS'' (py_upper ''mogas'') \<and> \<not> py_in ''92'' (py_upper ''mogas'')"
    by code_simp
  have h3: "\<not> py_in ''MOGAS'' (py_upper ''Diesel 1'') \<and> py_in ''DIESEL'' (py_upper ''Diesel 1'')"
    by code_simp
  have h4: "\<not> py_in ''MOGAS'' (py_upper ''Jet A1'') \<and> \<not> py_in ''HSD'' (py_upper ''Jet A1'')
      \<and> \<not> py_in ''DIESEL'' (py_upper ''Jet A1'') \<and> py_in ''JET'' (py_upper ''Jet A1'')"
    by code_simp
  have h5: "\<not> py_in ''MOGAS'' (py_upper ''hobc'') \<and> \<not> py_in ''HSD'' (py_upper ''hobc'')
      \<and> \<not> py_in ''DIESEL'' (py_upper ''hobc'') \<and> \<not> py_in ''JET'' (py_upper ''hobc'')
      \<and> py_in ''HOBC'' (py_upper ''hobc'')"
    by code_simp
  have h6: "\<not> py_in ''MOGAS'' (py_upper ''LPG'') \<and> \<not> py_in ''HSD'' (py_upper ''LPG'')
      \<and> \<not> py_in ''DIESEL'' (py_upper ''LPG'') \<and> \<not> py_in ''JET'' (py_upper ''LPG'')
      \<and> \<not> py_in ''HOBC'' (py_upper ''LPG'') \<and> \<not> py_in ''OCTANE'' (py_upper ''LPG'')
      \<and> re_search (py_upper ''LPG'') = None"
    by code_simp
  from h1 extract_product_rules[of "''Mogas 92 Cargo''"]
  have w1: "extract_product_from_sheetname ''Mogas 92 Cargo'' = ''MOGAS 92 RON''" by blast
  from h2 extract_product_rules[of "''mogas''"]
  have w2: "extract_product_from_sheetname ''mogas'' = ''MOGAS 95 RON''" by blast
  from h3 extract_product_rules[of "''Diesel 1''"]
  have w3: "extract_product_from_sheetname ''Diesel 1'' = ''HSD''" by blast
  from h4 extract_product_rules[of "''Jet A1''"]
  have w4: "extract_product_from_sheetname ''Jet A1'' = ''JET FUEL''" by blast
  from h5 extract_product_rules[of "''hobc''"]
  have w5: "extract_product_from_sheetname ''hobc'' = ''HOBC''" by blast
  from h6 extract_product_rules[of "''LPG''"]
  have w6: "extract_product_from_sheetname ''LPG'' = ''UNKNOWN''" by blast
  from h1 h2 h3 h4 h5 h6 w1 w2 w3 w4 w5 w6 show ?thesis by blast
qed





subsection \<open>Grid Preprocessor\<close>

text \<open>
  C4, as amended. The header row is the first row, from the top, whose non-empty cell
  values, joined by single spaces and lower-cased, contain \<open>description\<close> or
  \<open>method\<close>; \<open>clean_table\<close> returns nothing exactly when no row qualifies; on success
  the column names come from the header row and the rows are those below the header row
  (none above it, nor the header row itself) that are not empty in every cell.
\<close>

theorem clean_table_header:
  "(find_table_start repr df = Some i \<longleftrightarrow>
      (i < length df \<and> is_header_row repr (df ! i) \<and> (\<forall>j < i. \<not> is_header_row repr (df ! j))))
   \<and> (clean_table repr df = None \<longleftrightarrow> (\<forall>row \<in> set df. \<not> is_header_row repr row))
   \<and> (\<forall>t. clean_table repr df = Some t \<longrightarrow>
        (\<exists>i. find_table_start repr df = Some i
             \<and> columns t = map (column_name repr) (df ! i)
             \<and> rows t = filter (\<lambda>r. \<not> all_na r) (drop (Suc i) df)))
   \<and> is_header_row repr row =
        (py_in ''description'' (py_lower (py_join '' '' (map (py_str repr) (filter notna row))))
         \<or> py_in ''method'' (py_lower (py_join '' '' (map (py_str repr) (filter notna row)))))"
proof -
  have a: "find_table_start repr df = Some i \<longleftrightarrow>
      (i < length df \<and> is_header_row repr (df ! i) \<and> (\<forall>j < i. \<not> is_header_row repr (df ! j)))"
    using find_from_Some[of repr 0 df i] by (simp add: find_table_start_def)
  have drop_ne: "drop k df \<noteq> []" if "find_table_start repr df = Some k" for k
    using that find_from_Some[of repr 0 df k] by (simp add: find_table_start_def)
  have b: "clean_table repr df = None \<longleftrightarrow> (\<forall>row \<in> set df. \<not> is_header_row repr row)"
  proof (cases "find_table_start repr df")
    case None
    then show ?thesis using find_from_None[of repr 0 df]
      by (simp add: clean_table_def find_table_start_def)
  next
    case (Some k)
    with drop_ne[of k] obtain h body where hb: "drop k df = h # body" by (cases "drop k df") auto
    from Some have "\<not> (\<forall>row \<in> set df. \<not> is_header_row repr row)"
      using find_from_None[of repr 0 df] by (simp add: find_table_start_def)
    then show ?thesis using Some hb by (simp add: clean_table_def)
  qed
  have c: "\<forall>t. clean_table repr df = Some t \<longrightarrow>
        (\<exists>i. find_table_start repr df = Some i
             \<and> columns t = map (column_name repr) (df ! i)
             \<and> rows t = filter (\<lambda>r. \<not> all_na r) (drop (Suc i) df))"
  proof (intro allI impI)
    fix t assume t: "clean_table repr df = Some t"
    then obtain k where k: "find_table_start repr df = Some k"
      by (cases "find_table_start repr df") (auto simp: clean_table_def)
    with drop_ne[of k] obtain h body where hb: "drop k df = h # body" by (cases "drop k df") auto
    from k a have kl: "k < length df" using find_from_Some[of repr 0 df k] by (simp add: find_table_start_def)
    from hb kl have h: "h = df ! k" by (metis Cons_nth_drop_Suc list.inject)
    from hb kl have body: "body = drop (Suc k) df" by (metis Cons_nth_drop_Suc list.inject)
    from t k hb have "t = \<lparr>columns = map (column_name repr) h, rows = filter (\<lambda>r. \<not> all_na r) body\<rparr>"
      by (simp add: clean_table_def)
    with h body k show "\<exists>i. find_table_start repr df = Some i
             \<and> columns t = map (column_name repr) (df ! i)
             \<and> rows t = filter (\<lambda>r. \<not> all_na r) (drop (Suc i) df)" by simp
  qed
  show ?thesis using a b c by (simp add: is_header_row_def row_str_def)
qed

theorem clean_table_header_witness:
  "find_table_start (\<lambda>_. [])
      [[CFloat NaN, CStr ''Report''], [CStr ''Tests Description'', CStr ''HDIP Result''],
       [CFloat NaN, CFloat NaN], [CStr ''Flash Point'', CInt 40]] = Some 1
   \<and> (\<exists>t. clean_table (\<lambda>_. [])
      [[CFloat NaN, CStr ''Report''], [CStr ''Tests Description'', CStr ''HDIP Result''],
       [CFloat NaN, CFloat NaN], [CStr ''Flash Point'', CInt 40]] = Some t
      \<and> columns t = [''Tests Description'', ''HDIP Result'']
      \<and> rows t = [[CStr ''Flash Point'', CInt 40]])"
proof -
  let ?r = "\<lambda>_::cell. []::string"
  let ?g = "[[CFloat NaN, CStr ''Report''], [CStr ''Tests Description'', CStr ''HDIP Result''],
       [CFloat NaN, CFloat NaN], [CStr ''Flash Point'', CInt 40]]"
  note inst = clean_table_header[of ?r ?g 1]
  have h0: "\<not> is_header_row ?r [CFloat NaN, CStr ''Report'']" by code_simp
  have h1: "is_header_row ?r [CStr ''Tests Description'', CStr ''HDIP Result'']" by code_simp
  from inst h0 h1 have start: "find_table_start ?r ?g = Some 1" by simp
  from inst h1 have "clean_table ?r ?g \<noteq> None" by simp
  then obtain t where t: "clean_table ?r ?g = Some t" by blast
  with inst start have ct: "columns t = map (column_name ?r) (?g ! 1)"
    and rt: "rows t = filter (\<lambda>r. \<not> all_na r) (drop (Suc 1) ?g)" by auto
  have c: "map (column_name ?r) (?g ! 1) = [''Tests Description'', ''HDIP Result'']" by code_simp
  have r: "filter (\<lambda>r. \<not> all_na r) (drop (Suc 1) ?g) = [[CStr ''Flash Point'', CInt 40]]" by code_simp
  from start t ct rt c r show ?thesis by simp
qed


text \<open>
  C4 as stated speaks of the concatenation of the cell values. The source joins them
  with a space, so a word split over two cells does not make a header row: the row
  \<open>des | cription\<close> concatenates to \<open>description\<close>, and no table is found.
\<close>

theorem clean_table_concat_counterexample:
  "is_header_row_spec (\<lambda>_. []) [CStr ''des'', CStr ''cription'']
   \<and> clean_table (\<lambda>_. []) [[CStr ''des'', CStr ''cription'']] = None"
  by code_simp

subsection \<open>Fuzzy Matcher\<close>

text \<open>
  C9, as amended. For a cutoff between 0 and 1, \<open>get_close_matches\<close> with \<open>n=1\<close>
  returns nothing exactly when no candidate has a ratio at or above the cutoff, and
  otherwise one candidate: one at or above the cutoff whose ratio no other such
  candidate exceeds and, among those of the same ratio, one that no other exceeds as a
  string. The two quick ratios the library tests first never exclude a candidate, since
  they are upper bounds of the ratio (\<open>scored_eq\<close>).
\<close>

theorem get_close_matches_best:
  "0 \<le> cutoff \<Longrightarrow> cutoff \<le> 1 \<Longrightarrow>
   (get_close_matches word possibilities cutoff = Inr []
      \<longleftrightarrow> (\<forall>x \<in> set possibilities. ratio x word < cutoff))
   \<and> ((\<exists>x \<in> set possibilities. cutoff \<le> ratio x word) \<longrightarrow>
        (\<exists>m. get_close_matches word possibilities cutoff = Inr [m]
           \<and> m \<in> set possibilities \<and> cutoff \<le> ratio m word
           \<and> (\<forall>x \<in> set possibilities. cutoff \<le> ratio x word \<longrightarrow>
                 ratio x word < ratio m word \<or> (ratio x word = ratio m word \<and> \<not> str_gt x m))))"
proof -
  assume c: "0 \<le> cutoff" "cutoff \<le> 1"
  let ?f = "\<lambda>x. (ratio x word, x)"
  let ?qs = "filter (\<lambda>x. cutoff \<le> ratio x word) possibilities"
  have g: "get_close_matches word possibilities cutoff = Inr (map snd (nlargest1 (map ?f ?qs)))"
    using c by (simp add: get_close_matches_def scored_eq)
  show ?thesis
  proof (cases ?qs)
    case Nil
    then have "\<forall>x \<in> set possibilities. ratio x word < cutoff"
      by (auto simp: filter_empty_conv not_le)
    moreover have "get_close_matches word possibilities cutoff = Inr []"
      using g Nil by (simp add: nlargest1_def)
    ultimately show ?thesis by (auto simp: not_le[symmetric])
  next
    case (Cons q qs')
    define p where "p = py_max (?f q) (map ?f qs')"
    from py_max_mem[of "?f q" "map ?f qs'"] have "p \<in> set (map ?f ?qs)"
      unfolding p_def Cons by simp
    then obtain m where m: "m \<in> set ?qs" "p = ?f m" by auto
    have gr: "\<forall>y \<in> set (map ?f ?qs). \<not> tuple_gt y p"
      using py_max_greatest[of "{}" "?f q" "map ?f qs'"] unfolding p_def Cons by simp
    have best: "ratio x word < ratio m word \<or> (ratio x word = ratio m word \<and> \<not> str_gt x m)"
      if "x \<in> set possibilities" "cutoff \<le> ratio x word" for x
    proof -
      from that have "?f x \<in> set (map ?f ?qs)" by simp
      with gr have "\<not> tuple_gt (?f x) p" by blast
      then show ?thesis using m(2) by (auto simp: tuple_gt_def split: if_splits)
    qed
    have res: "get_close_matches word possibilities cutoff = Inr [m]"
      using g Cons m(2) by (simp add: nlargest1_def p_def[symmetric])
    from m(1) have mq: "m \<in> set possibilities" "cutoff \<le> ratio m word" by auto
    have ne: "\<not> (\<forall>x \<in> set possibilities. ratio x word < cutoff)" using mq by (auto simp: not_less)
    show ?thesis using res mq best ne by auto
  qed
qed

theorem get_close_matches_best_witness:
  "(0::real) \<le> 6 / 10 \<and> (6::real) / 10 \<le> 1
   \<and> ''Density A'' \<in> set [''Density A'', ''Density B'', ''Flash Point'']
   \<and> 6 / 10 \<le> ratio ''Density A'' ''Density''
   \<and> (\<exists>m. get_close_matches ''Density'' [''Density A'', ''Density B'', ''Flash Point''] (6 / 10) = Inr [m]
         \<and> m \<in> set [''Density A'', ''Density B'', ''Flash Point'']
         \<and> 6 / 10 \<le> ratio m ''Density'')"
proof -
  have h1: "(0::real) \<le> 6 / 10" and h2: "(6::real) / 10 \<le> 1" by simp_all
  have h3: "6 / 10 \<le> ratio ''Density A'' ''Density''" by code_simp
  have h4: "''Density A'' \<in> set [''Density A'', ''Density B'', ''Flash Point'']" by simp
  from h3 h4 have ex: "\<exists>x \<in> set [''Density A'', ''Density B'', ''Flash Point''].
      6 / 10 \<le> ratio x ''Density''" by blast
  from get_close_matches_best[OF h1 h2, of "''Density''" "[''Density A'', ''Density B'', ''Flash Point'']"] ex
  have "\<exists>m. get_close_matches ''Density'' [''Density A'', ''Density B'', ''Flash Point''] (6 / 10) = Inr [m]
         \<and> m \<in> set [''Density A'', ''Density B'', ''Flash Point'']
         \<and> 6 / 10 \<le> ratio m ''Density''" by blast
  with h1 h2 h3 h4 show ?thesis by blast
qed

text \<open>
  C9 as stated breaks ties by the order of the candidates. The library takes the
  maximum of the pairs (ratio, candidate), so of two candidates with the same ratio the
  greater string wins, first or not; and a cutoff outside 0..1 raises \<open>ValueError\<close>.
\<close>

theorem get_close_matches_tie_counterexample:
  "ratio ''Density A'' ''Density'' = ratio ''Density B'' ''Density''
   \<and> get_close_matches ''Density'' [''Density A'', ''Density B''] (6 / 10) = Inr [''Density B'']
   \<and> get_close_matches ''Density'' [''Density B'', ''Density A''] (6 / 10) = Inr [''Density B'']
   \<and> get_close_matches ''Density'' [''Density A'', ''Density B''] 2 = Inl ValueError"
  by code_simp

subsection \<open>Comparison Engine\<close>

text \<open>
  C3. In every summary row \<open>process_vessel_file\<close> returns, Tests Checked is Passed plus
  Failed, and Overall Result is FAIL exactly when Failed is above 0 and PASS otherwise.
\<close>

theorem summary_invariant:
  "process_vessel_file repr vessel_file standards_file month_year = Inr (summary, details)
   \<Longrightarrow> s \<in> set summary
   \<Longrightarrow> col_tests_checked s = col_passed s + col_failed s
       \<and> (col_overall_result s = ''FAIL'') = (0 < col_failed s)
       \<and> (col_overall_result s = ''PASS'') = (col_failed s = 0)"
  using process_sheets_summary_ok[of repr standards_file vessel_file "[]" "[]" summary details]
  by (simp add: process_vessel_file_def summary_ok_def)

theorem summary_invariant_witness:
  "process_vessel_file (\<lambda>_. []) (example_sheet (CStr ''Flash Point'') (CStr ''30''))
      example_standards ''September 2025''
    = Inr ([\<lparr>col_sheet_name = ''HSD CARGO 1'', col_product = ''HSD'', col_tests_checked = 1,
             col_passed = 0, col_failed = 1, col_overall_result = ''FAIL'',
             col_failed_tests = ''Flash Point''\<rparr>],
           [(''HSD CARGO 1'',
             [\<lparr>col_test = ''Flash Point'', col_hdip_result = Some (Fin 30),
               col_load_port_result = None, col_min = Some (Fin 38), col_max = Some NaN,
               col_unit_remarks = CStr ''C'', col_status = ''FAIL''\<rparr>])])
   \<and> (1::nat) = 0 + 1 \<and> (''FAIL'' = ''FAIL'') = (0 < (1::nat))"
proof -
  let ?s = "\<lparr>col_sheet_name = ''HSD CARGO 1'', col_product = ''HSD'', col_tests_checked = 1,
             col_passed = 0, col_failed = 1, col_overall_result = ''FAIL'',
             col_failed_tests = ''Flash Point''\<rparr>"
  have run: "process_vessel_file (\<lambda>_. []) (example_sheet (CStr ''Flash Point'') (CStr ''30''))
      example_standards ''September 2025''
    = Inr ([?s],
           [(''HSD CARGO 1'',
             [\<lparr>col_test = ''Flash Point'', col_hdip_result = Some (Fin 30),
               col_load_port_result = None, col_min = Some (Fin 38), col_max = Some NaN,
               col_unit_remarks = CStr ''C'', col_status = ''FAIL''\<rparr>])])"
    by code_simp
  have mem: "?s \<in> set [?s]" by simp
  from summary_invariant[OF run mem] run show ?thesis by simp
qed

text \<open>
  C10, as amended. A sheet that passes table discovery, the matching of its product to a
  standards table and the choice of the result columns, and in which every row is
  skipped, still gets a summary row: 0 tests checked, 0 passed, 0 failed, overall PASS,
  no failed tests, and an empty detail table. Every sheet without a failure shows the
  same Overall Result (PASS) and the same empty Failed Tests, with Tests Checked equal
  to Passed.
\<close>

theorem all_rows_skipped_summary:
  "clean_table repr raw = Some tbl
   \<Longrightarrow> get_close_matches (extract_product_from_sheetname sheet_name) (map fst std_xls) (4 / 10)
         = Inr (m # ms)
   \<Longrightarrow> map_of std_xls m = Some std_df
   \<Longrightarrow> result_columns (columns tbl) = Some (hdip_col, load_col)
   \<Longrightarrow> \<forall>row \<in> set (rows tbl).
         process_row repr std_df (columns tbl) hdip_col load_col initial_state row = Inr initial_state
   \<Longrightarrow> process_sheet repr std_xls sheet_name raw
         = Inr (Some (\<lparr>col_sheet_name = sheet_name,
                         col_product = extract_product_from_sheetname sheet_name,
                         col_tests_checked = 0, col_passed = 0, col_failed = 0,
                         col_overall_result = ''PASS'', col_failed_tests = []\<rparr>, []))
       \<and> (\<forall>name' raw' s d. process_sheet repr std_xls name' raw' = Inr (Some (s, d)) \<and> col_failed s = 0
            \<longrightarrow> col_overall_result s = ''PASS'' \<and> col_failed_tests s = []
                \<and> col_tests_checked s = col_passed s)"
proof -
  assume a: "clean_table repr raw = Some tbl"
    "get_close_matches (extract_product_from_sheetname sheet_name) (map fst std_xls) (4 / 10)
         = Inr (m # ms)"
    "map_of std_xls m = Some std_df"
    "result_columns (columns tbl) = Some (hdip_col, load_col)"
    "\<forall>row \<in> set (rows tbl).
         process_row repr std_df (columns tbl) hdip_col load_col initial_state row = Inr initial_state"
  from a(5) have "process_rows repr std_df (columns tbl) hdip_col load_col initial_state (rows tbl)
      = Inr initial_state" by (rule process_rows_all_skipped)
  with a(1-4) have "process_sheet repr std_xls sheet_name raw
         = Inr (Some (\<lparr>col_sheet_name = sheet_name,
                         col_product = extract_product_from_sheetname sheet_name,
                         col_tests_checked = 0, col_passed = 0, col_failed = 0,
                         col_overall_result = ''PASS'', col_failed_tests = []\<rparr>, []))"
    by (simp add: process_sheet_def initial_state_def)
  then show ?thesis using process_sheet_no_failure by blast
qed

theorem all_rows_skipped_summary_witness:
  "process_sheet (\<lambda>_. []) example_standards ''HSD CARGO 1''
      [[CStr ''Tests Description'', CStr ''HDIP Result''], [CStr ''Viscosity'', CStr ''30'']]
    = Inr (Some (\<lparr>col_sheet_name = ''HSD CARGO 1'',
                    col_product = extract_product_from_sheetname ''HSD CARGO 1'',
                    col_tests_checked = 0, col_passed = 0, col_failed = 0,
                    col_overall_result = ''PASS'', col_failed_tests = []\<rparr>, []))"
proof -
  let ?r = "\<lambda>_::cell. []::string"
  let ?raw = "[[CStr ''Tests Description'', CStr ''HDIP Result''], [CStr ''Viscosity'', CStr ''30'']]"
  let ?tbl = "\<lparr>columns = [''Tests Description'', ''HDIP Result''],
              rows = [[CStr ''Viscosity'', CStr ''30'']]\<rparr>"
  let ?std = "\<lparr>columns = [''Parameter'', ''Min'', ''Max'', ''Unit / Remarks''],
              rows = [[CStr ''Flash Point'', CFloat (Fin 38), CFloat NaN, CStr ''C'']]\<rparr>"
  have h1: "clean_table ?r ?raw = Some ?tbl" by code_simp
  have h2: "get_close_matches (extract_product_from_sheetname ''HSD CARGO 1'')
      (map fst example_standards) (4 / 10) = Inr (''HSD'' # [])" by code_simp
  have h3: "map_of example_standards ''HSD'' = Some ?std" by code_simp
  have h4: "result_columns (columns ?tbl) = Some (''HDIP Result'', None)" by code_simp
  have h5: "process_row ?r ?std (columns ?tbl) ''HDIP Result'' None initial_state
      [CStr ''Viscosity'', CStr ''30''] = Inr initial_state" by code_simp
  then have h6: "\<forall>row \<in> set (rows ?tbl).
      process_row ?r ?std (columns ?tbl) ''HDIP Result'' None initial_state row = Inr initial_state"
    by simp
  from all_rows_skipped_summary[OF h1 h2 h3 h4 h6] show ?thesis by blast
qed

text \<open>
  C10 as stated ends: such a sheet cannot be told in the summary from one whose tests all
  passed. It can: its row counts 0 tests checked and 0 passed, the row of a sheet whose
  one test passed counts 1 and 1.
\<close>

theorem all_rows_skipped_distinguishable:
  "process_sheet (\<lambda>_. []) example_standards ''HSD CARGO 1''
      [[CStr ''Tests Description'', CStr ''HDIP Result''], [CStr ''Viscosity'', CStr ''30'']]
    = Inr (Some (\<lparr>col_sheet_name = ''HSD CARGO 1'', col_product = ''HSD'',
                    col_tests_checked = 0, col_passed = 0, col_failed = 0,
                    col_overall_result = ''PASS'', col_failed_tests = []\<rparr>, []))
   \<and> process_sheet (\<lambda>_. []) example_standards ''HSD CARGO 1''
      [[CStr ''Tests Description'', CStr ''HDIP Result''], [CStr ''Flash Point'', CStr ''40'']]
    = Inr (Some (\<lparr>col_sheet_name = ''HSD CARGO 1'', col_product = ''HSD'',
                    col_tests_checked = 1, col_passed = 1, col_failed = 0,
                    col_overall_result = ''PASS'', col_failed_tests = []\<rparr>,
                  [\<lparr>col_test = ''Flash Point'', col_hdip_result = Some (Fin 40),
                    col_load_port_result = None, col_min = Some (Fin 38), col_max = Some NaN,
                    col_unit_remarks = CStr ''C'', col_status = ''PASS''\<rparr>]))
   \<and> \<lparr>col_sheet_name = ''HSD CARGO 1'', col_product = ''HSD'',
        col_tests_checked = 0, col_passed = 0, col_failed = 0,
        col_overall_result = ''PASS'', col_failed_tests = []\<rparr>
     \<noteq> \<lparr>col_sheet_name = ''HSD CARGO 1'', col_product = ''HSD'',
        col_tests_checked = 1, col_passed = 1, col_failed = 0,
        col_overall_result = ''PASS'', col_failed_tests = []\<rparr>"
  by code_simp

text \<open>
  C2 says that a row is recorded only when its primary measurement is numeric and one
  bound at least is present. An empty cell reaches the program as the float NaN, which
  \<open>clean_numeric\<close> returns as it is and the test \<open>isinstance(hdip_val, (int, float))\<close>
  accepts: a row with no measurement is recorded, and as PASS, since no comparison with
  NaN holds. In the same way a standards row with both bounds empty has two NaN bounds
  that are not \<open>None\<close>, and a row measured against it is recorded as PASS.
\<close>

theorem blank_measurement_recorded:
  "process_vessel_file (\<lambda>_. []) (example_sheet (CStr ''Flash Point'') (CFloat NaN))
      example_standards ''September 2025''
    = Inr ([\<lparr>col_sheet_name = ''HSD CARGO 1'', col_product = ''HSD'', col_tests_checked = 1,
             col_passed = 1, col_failed = 0, col_overall_result = ''PASS'',
             col_failed_tests = []\<rparr>],
           [(''HSD CARGO 1'',
             [\<lparr>col_test = ''Flash Point'', col_hdip_result = Some NaN,
               col_load_port_result = None, col_min = Some (Fin 38), col_max = Some NaN,
               col_unit_remarks = CStr ''C'', col_status = ''PASS''\<rparr>])])
   \<and> process_vessel_file (\<lambda>_. []) (example_sheet (CStr ''Flash Point'') (CStr ''40''))
      [(''HSD'', \<lparr>columns = [''Parameter'', ''Min'', ''Max'', ''Unit / Remarks''],
                 rows = [[CStr ''Flash Point'', CFloat NaN, CFloat NaN, CStr ''C'']]\<rparr>)]
      ''September 2025''
    = Inr ([\<lparr>col_sheet_name = ''HSD CARGO 1'', col_product = ''HSD'', col_tests_checked = 1,
             col_passed = 1, col_failed = 0, col_overall_result = ''PASS'',
             col_failed_tests = []\<rparr>],
           [(''HSD CARGO 1'',
             [\<lparr>col_test = ''Flash Point'', col_hdip_result = Some (Fin 40),
               col_load_port_result = None, col_min = Some NaN, col_max = Some NaN,
               col_unit_remarks = CStr ''C'', col_status = ''PASS''\<rparr>])])"
  by code_simp

text \<open>
  C8 says that a row with an empty or missing description is skipped. A missing column
  and empty text are; an empty cell is NaN, \<open>str\<close> turns it into the text \<open>nan\<close>, and the
  row goes on to the matching. With a parameter close to \<open>nan\<close> the row is recorded
  under the test name \<open>nan\<close>; with a standards row whose parameter cell is empty the
  match is the text \<open>nan\<close>, no cell equals it, and \<open>.iloc[0]\<close> raises \<open>IndexError\<close>.
\<close>

theorem blank_description_not_skipped:
  "process_vessel_file (\<lambda>_. []) (example_sheet (CFloat NaN) (CStr ''40''))
      [(''HSD'', \<lparr>columns = [''Parameter'', ''Min'', ''Max'', ''Unit / Remarks''],
                 rows = [[CStr ''Tan'', CFloat (Fin 38), CFloat NaN, CStr ''C'']]\<rparr>)]
      ''September 2025''
    = Inr ([\<lparr>col_sheet_name = ''HSD CARGO 1'', col_product = ''HSD'', col_tests_checked = 1,
             col_passed = 1, col_failed = 0, col_overall_result = ''PASS'',
             col_failed_tests = []\<rparr>],
           [(''HSD CARGO 1'',
             [\<lparr>col_test = ''nan'', col_hdip_result = Some (Fin 40),
               col_load_port_result = None, col_min = Some (Fin 38), col_max = Some NaN,
               col_unit_remarks = CStr ''C'', col_status = ''PASS''\<rparr>])])
   \<and> process_vessel_file (\<lambda>_. []) (example_sheet (CFloat NaN) (CStr ''40''))
      [(''HSD'', \<lparr>columns = [''Parameter'', ''Min'', ''Max'', ''Unit / Remarks''],
                 rows = [[CStr ''Flash Point'', CFloat (Fin 38), CFloat NaN, CStr ''C''],
                         [CFloat NaN, CFloat NaN, CFloat NaN, CStr ''see note'']]\<rparr>)]
      ''September 2025''
    = Inl IndexError"
  by code_simp

end
